theory Spec2Isabelle
  imports Complex_Main "HOL-Library.Word"
begin

unbundle bit_operations_syntax

section \<open>Data model\<close>

text \<open>
  The component \<^verbatim>\<open>MapDirections\<close> of \<^verbatim>\<open>src/MapViewDirections.tsx\<close>.
  A coordinate is a JavaScript number that the code tests for truthiness before it
  uses it. It is modelled as \<open>real option\<close>: \<open>None\<close> is a missing coordinate
  (\<^verbatim>\<open>undefined\<close> or \<^verbatim>\<open>null\<close>), \<open>Some v\<close> a present number. The rounding of
  IEEE doubles is outside the model.
\<close>

record Marker =
  latitude :: "real option"
  longitude :: "real option"

text \<open>
  A \<^verbatim>\<open>Route\<close> is built from array reads; a read outside an array gives
  \<^verbatim>\<open>undefined\<close>, which is \<open>None\<close> here.
\<close>

record Route =
  waypoints :: "Marker list option"
  origin :: "Marker option"
  destination :: "Marker option"

text \<open>The exception of a property read on \<^verbatim>\<open>undefined\<close>.\<close>

datatype exn = TypeError

definition WAYPOINT_LIMIT :: nat where
  "WAYPOINT_LIMIT = 10"

section \<open>JavaScript arrays\<close>

text \<open>
  An array that is written by index may have holes: it is a list of optional elements.
  Reading a hole or past the end gives \<^verbatim>\<open>undefined\<close>; writing past the end
  extends the array, leaving holes in between.
\<close>

definition array_get :: "'a option list \<Rightarrow> nat \<Rightarrow> 'a option" where
  "array_get a i = (if i < length a then a ! i else None)"

definition array_set :: "'a option list \<Rightarrow> nat \<Rightarrow> 'a \<Rightarrow> 'a option list" where
  "array_set a i v =
     (if i < length a then a[i := Some v]
      else a @ replicate (i - length a) None @ [Some v])"

text \<open>Reading a dense array at a number that may be negative.\<close>

definition elem :: "'a list \<Rightarrow> int \<Rightarrow> 'a option" where
  "elem xs i = (if 0 \<le> i \<and> i < int (length xs) then Some (xs ! nat i) else None)"

text \<open>\<^verbatim>\<open>Array.prototype.reduce\<close> with the index passed to the callback.\<close>

fun reduce_index :: "('b \<Rightarrow> 'a \<Rightarrow> nat \<Rightarrow> 'b) \<Rightarrow> 'b \<Rightarrow> nat \<Rightarrow> 'a list \<Rightarrow> 'b" where
  "reduce_index f acc i [] = acc"
| "reduce_index f acc i (x # xs) = reduce_index f (f acc x i) (Suc i) xs"

text \<open>A loop whose body may throw: the first exception ends it.\<close>

fun collect :: "('a \<Rightarrow> exn + 'b) \<Rightarrow> 'a list \<Rightarrow> exn + 'b list" where
  "collect f [] = Inr []"
| "collect f (x # xs) =
     (case f x of
        Inl e \<Rightarrow> Inl e
      | Inr y \<Rightarrow> (case collect f xs of Inl e \<Rightarrow> Inl e | Inr ys \<Rightarrow> Inr (y # ys)))"

section \<open>Splitting the waypoints into routes\<close>

text \<open>
  Lines 124 to 128: the callback of the \<^verbatim>\<open>reduce\<close> that fills
  \<^verbatim>\<open>chunckedWaypoints\<close>. \<^verbatim>\<open>accumulator[numChunk] || []\<close> is the chunk when
  it is there and the empty array otherwise.
\<close>

definition chunk_step :: "Marker list option list \<Rightarrow> Marker \<Rightarrow> nat \<Rightarrow> Marker list option list" where
  "chunk_step accumulator waypoint index =
     (let numChunk = index div WAYPOINT_LIMIT
      in array_set accumulator numChunk
           ((case array_get accumulator numChunk of None \<Rightarrow> [] | Some c \<Rightarrow> c) @ [waypoint]))"

definition chunckedWaypoints :: "Marker list \<Rightarrow> Marker list option list" where
  "chunckedWaypoints ws = reduce_index chunk_step [] 0 ws"

text \<open>
  Lines 134 to 138: the route of chunk \<open>i\<close>. Reading \<^verbatim>\<open>.length\<close> or an element
  of a chunk that is \<^verbatim>\<open>undefined\<close> throws a \<^verbatim>\<open>TypeError\<close>.
\<close>

definition chunk_route :: "Marker list option list \<Rightarrow> Marker \<Rightarrow> Marker \<Rightarrow> nat \<Rightarrow> exn + Route" where
  "chunk_route cw org dst i =
     (case (if i = 0 then Inr (Some org)
            else (case array_get cw (i - 1) of
                    None \<Rightarrow> Inl TypeError
                  | Some prev \<Rightarrow> Inr (elem prev (int (length prev) - 1)))) of
        Inl e \<Rightarrow> Inl e
      | Inr ori \<Rightarrow>
          (case (if int i = int (length cw) - 1 then Inr (Some dst)
                 else (case array_get cw (i + 1) of
                         None \<Rightarrow> Inl TypeError
                       | Some nxt \<Rightarrow> Inr (elem nxt 0))) of
             Inl e \<Rightarrow> Inl e
           | Inr des \<Rightarrow> Inr \<lparr>waypoints = array_get cw i, origin = ori, destination = des\<rparr>))"

text \<open>
  Lines 118 to 150: the array \<^verbatim>\<open>routes\<close>. \<^verbatim>\<open>waypoints\<close> is an optional
  property; an array, also an empty one, is truthy.
\<close>

definition build_routes :: "bool \<Rightarrow> Marker list option \<Rightarrow> Marker \<Rightarrow> Marker \<Rightarrow> exn + Route list" where
  "build_routes splitWaypoints wps org dst =
     (if splitWaypoints \<and> (case wps of None \<Rightarrow> False | Some ws \<Rightarrow> length ws > WAYPOINT_LIMIT)
      then (let cw = chunckedWaypoints (case wps of None \<Rightarrow> [] | Some ws \<Rightarrow> ws)
            in collect (chunk_route cw org dst) [0 ..< length cw])
      else Inr [\<lparr>waypoints = Some (case wps of None \<Rightarrow> [] | Some ws \<Rightarrow> ws),
                 origin = Some org, destination = Some dst\<rparr>])"


section \<open>Decoding an encoded polyline\<close>

text \<open>
  Lines 71 to 101, \<^verbatim>\<open>decode\<close>. An encoded string is the sequence of its UTF-16 code
  units, which is what \<^verbatim>\<open>length\<close>, \<^verbatim>\<open>charAt\<close> and \<^verbatim>\<open>charCodeAt\<close>
  count and read. The argument \<^verbatim>\<open>t\<close> is an array of records; each is modelled by
  the string at its \<^verbatim>\<open>polyline.points\<close>.

  \<^verbatim>\<open>result\<close> is only ever the value of a bitwise operator, a 32-bit integer; the
  number \<^verbatim>\<open>b\<close> is an integer or, past the end of the string, \<^verbatim>\<open>NaN\<close>
  (\<open>None\<close>). The totals \<^verbatim>\<open>lat\<close> and \<^verbatim>\<open>lng\<close> are sums of 32-bit integers,
  kept here as unbounded integers (a double is exact on them below \<open>2 ^ 53\<close>), and
  the quotient by \<^verbatim>\<open>1E5\<close> is the real quotient.
\<close>

type_synonym encoded = "16 word list"

text \<open>\<^verbatim>\<open>encoded.charAt(index).charCodeAt(0) - 63\<close>\<close>

definition char_code_minus_63 :: "encoded \<Rightarrow> nat \<Rightarrow> int option" where
  "char_code_minus_63 enc i = (if i < length enc then Some (uint (enc ! i) - 63) else None)"

text \<open>The conversion of a number to a 32-bit integer by a bitwise operator.\<close>

definition to_int32 :: "int option \<Rightarrow> 32 word" where
  "to_int32 b = (case b of None \<Rightarrow> 0 | Some v \<Rightarrow> word_of_int v)"

text \<open>\<^verbatim>\<open>x << shift\<close>: only the low five bits of the shift count are used.\<close>

definition shift_left :: "32 word \<Rightarrow> nat \<Rightarrow> 32 word" where
  "shift_left x shift = push_bit (shift mod 32) x"

text \<open>\<^verbatim>\<open>b >= 0x20\<close>, false on \<^verbatim>\<open>NaN\<close>.\<close>

definition continues :: "int option \<Rightarrow> bool" where
  "continues b = (case b of None \<Rightarrow> False | Some v \<Rightarrow> 32 \<le> v)"

text \<open>
  The \<^verbatim>\<open>do ... while (b >= 0x20)\<close> loops of lines 79 to 83 and 89 to 93. The result
  is the index after the loop and \<^verbatim>\<open>result\<close>; \<open>None\<close> stands for a loop that
  does not end.
\<close>

partial_function (option) read_run :: "encoded \<Rightarrow> nat \<Rightarrow> nat \<Rightarrow> 32 word \<Rightarrow> (nat \<times> 32 word) option" where
  "read_run enc index shift result =
     (let b = char_code_minus_63 enc index;
          index' = index + 1;
          result' = result OR shift_left (to_int32 b AND 0x1f) shift;
          shift' = shift + 5
      in if continues b then read_run enc index' shift' result' else Some (index', result'))"

declare read_run.simps [code]

text \<open>\<^verbatim>\<open>((result & 1) != 0 ? ~(result >> 1) : (result >> 1))\<close>\<close>

definition delta :: "32 word \<Rightarrow> int" where
  "delta result =
     sint (if result AND 1 \<noteq> 0 then NOT (signed_drop_bit 1 result) else signed_drop_bit 1 result)"

definition point :: "int \<Rightarrow> int \<Rightarrow> Marker" where
  "point lat lng =
     \<lparr>latitude = Some (real_of_int lat / 100000), longitude = Some (real_of_int lng / 100000)\<rparr>"

text \<open>The \<^verbatim>\<open>while (index < len)\<close> loop of lines 77 to 98.\<close>

partial_function (option) decode_points :: "encoded \<Rightarrow> nat \<Rightarrow> int \<Rightarrow> int \<Rightarrow> Marker list \<Rightarrow> Marker list option" where
  "decode_points enc index lat lng points =
     (if index < length enc then
        Option.bind (read_run enc index 0 0) (\<lambda>(index1, result1).
          let lat' = lat + delta result1 in
          Option.bind (read_run enc index1 0 0) (\<lambda>(index2, result2).
            let lng' = lng + delta result2 in
            decode_points enc index2 lat' lng' (points @ [point lat' lng'])))
      else Some points)"

declare decode_points.simps [code]

text \<open>The \<^verbatim>\<open>for (let step of t)\<close> loop: \<^verbatim>\<open>points\<close> is shared by all steps.\<close>

fun decode_steps :: "encoded list \<Rightarrow> Marker list \<Rightarrow> Marker list option" where
  "decode_steps [] points = Some points"
| "decode_steps (enc # t) points = Option.bind (decode_points enc 0 0 0 points) (decode_steps t)"

definition decode :: "encoded list \<Rightarrow> Marker list option" where
  "decode t = decode_steps t []"

section \<open>Request strings\<close>

text \<open>
  Truthiness: a number is falsy when it is missing or zero, a string when it is missing
  or empty.
\<close>

definition truthy :: "real option \<Rightarrow> bool" where
  "truthy x = (case x of None \<Rightarrow> False | Some v \<Rightarrow> v \<noteq> 0)"

definition truthy_string :: "string option \<Rightarrow> bool" where
  "truthy_string x = (case x of None \<Rightarrow> False | Some s \<Rightarrow> s \<noteq> [])"

text \<open>A number in a template literal; a missing one prints as \<^verbatim>\<open>undefined\<close>.\<close>

definition template_number :: "(real \<Rightarrow> string) \<Rightarrow> real option \<Rightarrow> string" where
  "template_number txt x = (case x of None \<Rightarrow> ''undefined'' | Some v \<Rightarrow> txt v)"

text \<open>Lines 155 to 164: \<^verbatim>\<open>originString\<close> and \<^verbatim>\<open>destinationString\<close>.\<close>

definition coordinate_string :: "(real \<Rightarrow> string) \<Rightarrow> Marker \<Rightarrow> string" where
  "coordinate_string txt m =
     (if truthy (latitude m) \<and> truthy (longitude m)
      then template_number txt (latitude m) @ '','' @ template_number txt (longitude m)
      else [])"

text \<open>
  Line 168: the callback of \<^verbatim>\<open>waypoints.map\<close>. The result is a string (\<open>Inl\<close>) or
  the waypoint object itself (\<open>Inr\<close>).
\<close>

definition waypoint_entry :: "(real \<Rightarrow> string) \<Rightarrow> Marker \<Rightarrow> string + Marker" where
  "waypoint_entry txt waypoint =
     (if truthy (latitude waypoint) \<and> truthy (longitude waypoint)
      then Inl (template_number txt (latitude waypoint) @ '','' @ template_number txt (longitude waypoint))
      else Inr waypoint)"

text \<open>The text of an object without a \<^verbatim>\<open>toString\<close> of its own.\<close>

definition object_text :: string where
  "object_text = ''[object Object]''"

definition entry_text :: "string + Marker \<Rightarrow> string" where
  "entry_text e = (case e of Inl s \<Rightarrow> s | Inr m \<Rightarrow> object_text)"

text \<open>\<^verbatim>\<open>Array.prototype.join\<close> on the texts of the elements.\<close>

fun join :: "string \<Rightarrow> string list \<Rightarrow> string" where
  "join sep [] = []"
| "join sep [x] = x"
| "join sep (x # y # zs) = x @ sep @ join sep (y # zs)"

text \<open>
  \<^verbatim>\<open>${waypoints}\<close>, the array \<^verbatim>\<open>waypoints\<close> of the route in a template literal:
  the texts of its elements joined with a comma.
\<close>

definition template_waypoints :: "Marker list option \<Rightarrow> string" where
  "template_waypoints wps =
     (case wps of None \<Rightarrow> ''undefined'' | Some ws \<Rightarrow> join '','' (map (\<lambda>w. object_text) ws))"

record Request =
  originString :: string
  destinationString :: string
  waypointsString :: string

text \<open>
  Lines 154 to 174: the three strings of a route. Reading \<^verbatim>\<open>origin.latitude\<close> of
  an \<^verbatim>\<open>undefined\<close> origin throws.
\<close>

definition route_request :: "(real \<Rightarrow> string) \<Rightarrow> bool \<Rightarrow> Route \<Rightarrow> exn + Request" where
  "route_request txt optimizeWaypoints route =
     (case origin route of
        None \<Rightarrow> Inl TypeError
      | Some org \<Rightarrow>
          (case destination route of
             None \<Rightarrow> Inl TypeError
           | Some dst \<Rightarrow>
               (let joined = (case waypoints route of
                                None \<Rightarrow> []
                              | Some ws \<Rightarrow> join ''|'' (map (entry_text \<circ> waypoint_entry txt) ws))
                in Inr \<lparr>originString = coordinate_string txt org,
                        destinationString = coordinate_string txt dst,
                        waypointsString =
                          (if optimizeWaypoints
                           then ''optimize:true|'' @ template_waypoints (waypoints route)
                           else joined)\<rparr>)))"

section \<open>Fetching one route\<close>

text \<open>The parsed response of the provider, as far as the code reads it.\<close>

record Leg =
  distance_value :: real
  duration_value :: real
  duration_in_traffic :: "real option"
  steps :: "encoded list"

record 'f RouteJson =
  json_legs :: "Leg list"
  overview_polyline :: encoded
  json_fare :: "'f option"
  waypoint_order :: "nat list option"

record 'f Json =
  status :: "string option"
  error_message :: "string option"
  routes :: "'f RouteJson list"

text \<open>
  What the code needs of the engine and of the network: the text of a number in a
  template literal, the text of the \<^verbatim>\<open>TypeError\<close> of reading a property of
  \<^verbatim>\<open>undefined\<close>, and the transport. \<open>fetch_json url\<close> is what
  \<^verbatim>\<open>fetch(url).then(response => response.json())\<close> settles to: \<open>None\<close> when it
  never settles, \<open>Inl text\<close> when it rejects with a value whose text is \<open>text\<close>,
  \<open>Inr json\<close> when it resolves.
\<close>

record 'f Engine =
  number_text :: "real \<Rightarrow> string"
  type_error_text :: string
  fetch_json :: "string \<Rightarrow> (string + 'f Json) option"

text \<open>
  The object that \<^verbatim>\<open>fetchRoute\<close> resolves to (lines 296 to 316), with any type of
  numbers, and the \<^verbatim>\<open>Result\<close> of the component.
\<close>

record ('n, 'f, 'l) RouteResult =
  route_distance :: 'n
  route_duration :: 'n
  route_coordinates :: "Marker list"
  route_fare :: "'f option"
  route_waypointOrder :: "nat list option"
  route_legs :: "'l list"

record ('n, 'f, 'l) Result =
  coordinates :: "Marker list"
  distance :: 'n
  duration :: 'n
  fares :: "'f option list"
  legs :: "'l list"
  waypointOrder :: "nat list option list"

text \<open>
  The properties of the component. \<^verbatim>\<open>origin\<close>, \<^verbatim>\<open>destination\<close> and
  \<^verbatim>\<open>waypoints\<close> are passed beside this record. An observer is present or not; a
  call of a present observer is an event.
\<close>

record 'f Props =
  apikey :: string
  region :: string
  onStart :: bool
  onReady :: bool
  onError :: bool
  filterRoute :: "((real, 'f, Leg) RouteResult list \<Rightarrow> nat) option"
  mode :: string
  language :: string
  optimizeWaypoints :: bool
  splitWaypoints :: bool
  directionsServiceBaseUrl :: string
  precision :: string
  timePrecision :: string
  channel :: "string option"
  avoidTolls :: bool
  avoidHighways :: bool
  avoidFerries :: bool

text \<open>\<^verbatim>\<open>toLowerCase\<close> on the letters of ASCII.\<close>

definition lower_char :: "char \<Rightarrow> char" where
  "lower_char c =
     (let n = (of_char c :: nat) in if 65 \<le> n \<and> n \<le> 90 then char_of (n + 32) else c)"

text \<open>Lines 235 to 253: the URL of the request.\<close>

definition request_url :: "'f Props \<Rightarrow> string \<Rightarrow> Request \<Rightarrow> string" where
  "request_url props timePrecisionString req =
     directionsServiceBaseUrl props
     @ ''?origin='' @ originString req
     @ ''&waypoints='' @ waypointsString req
     @ ''&destination='' @ destinationString req
     @ ''&key='' @ apikey props
     @ ''&mode='' @ map lower_char (mode props)
     @ ''&language='' @ language props
     @ ''&region='' @ region props
     @ (if timePrecisionString \<noteq> [] then ''&departure_time='' @ timePrecisionString else [])
     @ (if truthy_string (channel props)
        then ''&channel='' @ (case channel props of None \<Rightarrow> [] | Some c \<Rightarrow> c) else [])
     @ (if avoidTolls props then ''&avoid=tolls'' else [])
     @ (if avoidHighways props then ''&avoid=highways'' else [])
     @ (if avoidFerries props then ''&avoid=ferries'' else [])"

text \<open>
  Lines 297 to 315 (and 271 to 289): the result object of a route. It is \<open>None\<close>
  when a call of \<^verbatim>\<open>decode\<close> does not return.
\<close>

definition leg_coordinates :: "Leg list \<Rightarrow> Marker list option" where
  "leg_coordinates ls =
     foldl (\<lambda>carry curr. Option.bind carry (\<lambda>c. Option.bind (decode (steps curr)) (\<lambda>d. Some (c @ d))))
       (Some []) ls"

definition route_result :: "string \<Rightarrow> 'f RouteJson \<Rightarrow> (real, 'f, Leg) RouteResult option" where
  "route_result prec route =
     Option.bind
       (if prec = ''low'' then decode [overview_polyline route] else leg_coordinates (json_legs route))
       (\<lambda>cs. Some
          \<lparr>route_distance = foldl (\<lambda>carry curr. carry + distance_value curr) 0 (json_legs route) / 1000,
           route_duration =
             foldl (\<lambda>carry curr. carry + (case duration_in_traffic curr of
                                             Some v \<Rightarrow> v
                                           | None \<Rightarrow> duration_value curr)) 0 (json_legs route) / 60,
           route_coordinates = cs,
           route_fare = json_fare route,
           route_waypointOrder = waypoint_order route,
           route_legs = json_legs route\<rparr>)"

text \<open>A loop over option values: \<open>None\<close> when a body does not return.\<close>

fun all_results :: "('a \<Rightarrow> 'b option) \<Rightarrow> 'a list \<Rightarrow> 'b list option" where
  "all_results f [] = Some []"
| "all_results f (x # xs) =
     Option.bind (f x) (\<lambda>y. Option.bind (all_results f xs) (\<lambda>ys. Some (y # ys)))"

text \<open>
  The value a promise of the chain is rejected with: a string, \<^verbatim>\<open>undefined\<close> (from
  \<^verbatim>\<open>Promise.reject()\<close>) or a thrown \<^verbatim>\<open>TypeError\<close>; and its text in the template
  literal of line 323.
\<close>

datatype reason = Message string | Undefined | Thrown exn

definition reason_text :: "string \<Rightarrow> reason \<Rightarrow> string" where
  "reason_text tet r = (case r of Message s \<Rightarrow> s | Undefined \<Rightarrow> ''undefined'' | Thrown e \<Rightarrow> tet)"

text \<open>
  Lines 257 to 321: the callback on the parsed response. \<open>None\<close> is a callback that
  does not return, \<open>Inl\<close> a rejection, \<open>Inr\<close> the resolved result.
  \<^verbatim>\<open>json.routes[selectedRoute]\<close> outside the array is \<^verbatim>\<open>undefined\<close>, and
  reading its \<^verbatim>\<open>legs\<close> throws.
\<close>

definition on_json :: "'f Props \<Rightarrow> 'f Json \<Rightarrow> (reason + (real, 'f, Leg) RouteResult) option" where
  "on_json props json =
     (if status json \<noteq> Some ''OK'' then
        Some (Inl (Message
          (if truthy_string (error_message json)
           then (case error_message json of None \<Rightarrow> [] | Some s \<Rightarrow> s)
           else if truthy_string (status json)
           then (case status json of None \<Rightarrow> [] | Some s \<Rightarrow> s)
           else ''Unknown error'')))
      else if routes json \<noteq> [] then
        Option.bind
          (case filterRoute props of
             None \<Rightarrow> Some (elem (routes json) 0)
           | Some f \<Rightarrow>
               Option.bind (all_results (route_result (precision props)) (routes json))
                 (\<lambda>rs. Some (elem (routes json) (int (f rs)))))
          (\<lambda>route. case route of
                     None \<Rightarrow> Some (Inl (Thrown TypeError))
                   | Some r \<Rightarrow> Option.bind (route_result (precision props) r) (\<lambda>res. Some (Inr res)))
      else Some (Inl Undefined))"

definition request_error :: "string \<Rightarrow> string" where
  "request_error err = ''Error on GMAPS route request: '' @ err"

text \<open>
  Lines 232 to 325, \<^verbatim>\<open>fetchRoute\<close>: what the returned promise settles to. The
  \<^verbatim>\<open>catch\<close> of line 322 receives the rejections of the transport and of the callback.
\<close>

definition fetchRoute :: "'f Engine \<Rightarrow> 'f Props \<Rightarrow> string \<Rightarrow> Request \<Rightarrow> (string + (real, 'f, Leg) RouteResult) option" where
  "fetchRoute eng props timePrecisionString req =
     (case fetch_json eng (request_url props timePrecisionString req) of
        None \<Rightarrow> None
      | Some (Inl err) \<Rightarrow> Some (Inl (request_error err))
      | Some (Inr json) \<Rightarrow>
          (case on_json props json of
             None \<Rightarrow> None
           | Some (Inl r) \<Rightarrow> Some (Inl (request_error (reason_text (type_error_text eng) r)))
           | Some (Inr res) \<Rightarrow> Some (Inr res)))"

section \<open>Combining the results\<close>

text \<open>
  Lines 195 to 220: the callback of \<^verbatim>\<open>results.reduce\<close>, which assigns to the fields
  of the accumulator one after the other, and the reduction from the initial accumulator.
  Nothing is assumed of the addition of numbers.
\<close>

definition combine :: "('n::plus, 'f, 'l) Result \<Rightarrow> ('n, 'f, 'l) RouteResult \<Rightarrow> ('n, 'f, 'l) Result" where
  "combine acc r =
     acc\<lparr>coordinates := coordinates acc @ route_coordinates r,
         distance := distance acc + route_distance r,
         duration := duration acc + route_duration r,
         fares := fares acc @ [route_fare r],
         legs := route_legs r,
         waypointOrder := waypointOrder acc @ [route_waypointOrder r]\<rparr>"

definition aggregate :: "('n::{zero,plus}, 'f, 'l) RouteResult list \<Rightarrow> ('n, 'f, 'l) Result" where
  "aggregate results =
     foldl combine
       \<lparr>coordinates = [], distance = 0, duration = 0, fares = [], legs = [], waypointOrder = []\<rparr>
       results"

section \<open>The run of the component\<close>

text \<open>
  \<^verbatim>\<open>Promise.all\<close>. A promise of the array is \<open>None\<close> when it never settles,
  \<open>Inl reason\<close> when it is rejected and \<open>Inr value\<close> when it is fulfilled. The
  promises settle in the order given by the list \<open>order\<close> of their indexes, which is
  the network's choice. The combined promise is rejected with the reason of the first
  rejection in that order, fulfilled with all values, in the order of the array, once
  every promise is fulfilled, and otherwise never settles.
\<close>

fun settle_all :: "(string + 'a) option list \<Rightarrow> nat list \<Rightarrow> nat list \<Rightarrow> (string + 'a list) option" where
  "settle_all ps seen [] = None"
| "settle_all ps seen (i # order) =
     (case array_get ps i of
        None \<Rightarrow> settle_all ps seen order
      | Some (Inl r) \<Rightarrow> Some (Inl r)
      | Some (Inr v) \<Rightarrow>
          (if list_all (\<lambda>j. j \<in> set (i # seen)) [0 ..< length ps]
           then Some (Inr (concat (map (\<lambda>p. case p of Some (Inr x) \<Rightarrow> [x] | _ \<Rightarrow> []) ps)))
           else settle_all ps (i # seen) order))"

definition promise_all :: "(string + 'a) option list \<Rightarrow> nat list \<Rightarrow> (string + 'a list) option" where
  "promise_all ps order = (if ps = [] then Some (Inr []) else settle_all ps [] order)"

text \<open>
  What a run does that can be seen from outside: warnings on the console, calls of the
  observers that are present, and requests to the network.
\<close>

datatype 'f event =
  Warn string
| OnStart string string string
| Fetch string
| OnReady "(real, 'f, Leg) Result"
| OnError string

text \<open>The three state variables of the component; \<open>None\<close> is \<^verbatim>\<open>null\<close>.\<close>

record ViewState =
  coordinates_state :: "Marker list option"
  distance_state :: "real option"
  duration_state :: "real option"

definition resetState :: "ViewState \<Rightarrow> ViewState" where
  "resetState st = st\<lparr>coordinates_state := None, distance_state := None, duration_state := None\<rparr>"

text \<open>Lines 193 to 229: the handlers on the combined promise.\<close>

definition handlers :: "'f Props \<Rightarrow> ViewState \<Rightarrow> (string + (real, 'f, Leg) RouteResult list) option \<Rightarrow> ViewState \<times> 'f event list" where
  "handlers props st settled =
     (case settled of
        None \<Rightarrow> (st, [])
      | Some (Inr results) \<Rightarrow>
          (let result = aggregate results
           in (st\<lparr>coordinates_state := Some (coordinates result)\<rparr>,
               if onReady props then [OnReady result] else []))
      | Some (Inl errorMessage) \<Rightarrow>
          (resetState st,
           Warn (''MapDirections Error: '' @ errorMessage)
           # (if onError props then [OnError errorMessage] else [])))"

text \<open>The promises of the routes, in the order of the routes (lines 153 to 192).\<close>

definition route_promises :: "'f Engine \<Rightarrow> 'f Props \<Rightarrow> Request list \<Rightarrow> (string + (real, 'f, Leg) RouteResult) option list" where
  "route_promises eng props reqs =
     map (fetchRoute eng props (if timePrecision props = ''none'' then [] else timePrecision props)) reqs"

text \<open>
  Lines 103 to 230, \<^verbatim>\<open>fetchAndRenderRoute\<close>: the new state and the events of a run,
  or the exception that leaves it. \<^verbatim>\<open>onStart\<close> is called before the first request.
\<close>

definition fetchAndRenderRoute :: "'f Engine \<Rightarrow> 'f Props \<Rightarrow> Marker option \<Rightarrow> Marker option \<Rightarrow> Marker list option \<Rightarrow> nat list \<Rightarrow> ViewState \<Rightarrow> exn + ViewState \<times> 'f event list" where
  "fetchAndRenderRoute eng props org dst wps order st =
     (if apikey props = [] then Inr (st, [Warn ''MapDirections Error: Missing API Key''])
      else
        (case org of
           None \<Rightarrow> Inr (st, [])
         | Some ori \<Rightarrow>
             (case dst of
                None \<Rightarrow> Inr (st, [])
              | Some des \<Rightarrow>
                  (case build_routes (splitWaypoints props) wps ori des of
                     Inl e \<Rightarrow> Inl e
                   | Inr rts \<Rightarrow>
                       (case collect (route_request (number_text eng) (optimizeWaypoints props)) rts of
                          Inl e \<Rightarrow> Inl e
                        | Inr reqs \<Rightarrow>
                            (let timePrecisionString =
                                   (if timePrecision props = ''none'' then [] else timePrecision props);
                                 started =
                                   (case reqs of
                                      [] \<Rightarrow> []
                                    | r # _ \<Rightarrow>
                                        if onStart props
                                        then [OnStart (originString r) (destinationString r) (waypointsString r)]
                                        else []);
                                 requests = map (\<lambda>r. Fetch (request_url props timePrecisionString r)) reqs;
                                 (st', evs) = handlers props st (promise_all (route_promises eng props reqs) order)
                             in Inr (st', started @ requests @ evs)))))))"

text \<open>
  Lines 53 to 56: the effect of the component. Reading \<^verbatim>\<open>origin.latitude\<close> of a
  missing origin throws.
\<close>

definition effect :: "'f Engine \<Rightarrow> 'f Props \<Rightarrow> Marker option \<Rightarrow> Marker option \<Rightarrow> Marker list option \<Rightarrow> nat list \<Rightarrow> ViewState \<Rightarrow> exn + ViewState \<times> 'f event list" where
  "effect eng props org dst wps order st =
     (case org of
        None \<Rightarrow> Inl TypeError
      | Some ori \<Rightarrow>
          (if truthy (latitude ori) \<and> truthy (longitude ori) then
             (case dst of
                None \<Rightarrow> Inl TypeError
              | Some des \<Rightarrow>
                  (if truthy (latitude des) \<and> truthy (longitude des) \<and> apikey props \<noteq> []
                   then fetchAndRenderRoute eng props org dst wps order st
                   else Inr (st, [])))
           else Inr (st, [])))"

section \<open>The polyline format, as the specification words it\<close>

text \<open>
  The code point minus 63 is a chunk of six bits: the low five bits are data, bit 5 is
  the continuation flag. A run is a sequence of chunks up to and including the first
  one whose flag is clear.
\<close>

definition chunk :: "16 word \<Rightarrow> nat" where
  "chunk c = nat (uint c - 63)"

fun spec_runs :: "nat list \<Rightarrow> nat list list" where
  "spec_runs [] = []"
| "spec_runs (c # cs) =
     (if bit c 5
      then (case spec_runs cs of [] \<Rightarrow> [[c]] | r # rs \<Rightarrow> (c # r) # rs)
      else [c] # spec_runs cs)"

text \<open>The data bits of the chunks of a run, the first chunk lowest.\<close>

fun spec_accumulate :: "nat list \<Rightarrow> nat" where
  "spec_accumulate [] = 0"
| "spec_accumulate (c # cs) = c mod 32 + 32 * spec_accumulate cs"

text \<open>\<^verbatim>\<open>value = (result & 1) ? ~(result >> 1) : (result >> 1)\<close> on unbounded integers.\<close>

definition spec_zigzag :: "nat \<Rightarrow> int" where
  "spec_zigzag result =
     (if int result AND 1 \<noteq> 0 then NOT (drop_bit 1 (int result)) else drop_bit 1 (int result))"

text \<open>
  The deltas are taken in pairs, latitude first, and added to the running totals; each
  pair gives a point.
\<close>

fun spec_points :: "int \<Rightarrow> int \<Rightarrow> int list \<Rightarrow> Marker list" where
  "spec_points lat lng (dlat # dlng # ds) =
     \<lparr>latitude = Some (real_of_int (lat + dlat) / 100000),
      longitude = Some (real_of_int (lng + dlng) / 100000)\<rparr>
     # spec_points (lat + dlat) (lng + dlng) ds"
| "spec_points lat lng ds = []"

definition spec_decode_string :: "encoded \<Rightarrow> Marker list" where
  "spec_decode_string enc =
     spec_points 0 0 (map (spec_zigzag \<circ> spec_accumulate) (spec_runs (map chunk enc)))"

definition spec_decode :: "encoded list \<Rightarrow> Marker list" where
  "spec_decode t = concat (map spec_decode_string t)"

text \<open>
  A well-formed encoded string: every code unit is one of the 64 characters of the
  format, the last run is closed and the runs come in pairs.
\<close>

definition well_formed :: "encoded \<Rightarrow> bool" where
  "well_formed enc =
     (list_all (\<lambda>c. 63 \<le> uint c \<and> uint c \<le> 126) enc
      \<and> (enc = [] \<or> chunk (last enc) < 32)
      \<and> even (length (spec_runs (map chunk enc))))"

text \<open>
  The integer of every run of the string is below \<open>2 ^ 31\<close>: it is a non-negative
  value of a signed integer of 32 bits.
\<close>

definition runs_fit_int32 :: "encoded \<Rightarrow> bool" where
  "runs_fit_int32 enc =
     list_all (\<lambda>r. spec_accumulate r < 2 ^ 31) (spec_runs (map chunk enc))"

section \<open>Auxiliary notions\<close>

text \<open>The consecutive slices of length \<open>L\<close> of a list, the last one possibly shorter.\<close>

definition slices :: "nat \<Rightarrow> 'a list \<Rightarrow> 'a list list" where
  "slices L xs = map (\<lambda>j. take L (drop (L * j) xs)) [0 ..< (length xs + L - 1) div L]"

text \<open>The route of slice \<open>i\<close>, with the end of the slice before and the start of the next.\<close>

definition slice_route :: "Marker list list \<Rightarrow> Marker \<Rightarrow> Marker \<Rightarrow> nat \<Rightarrow> Route" where
  "slice_route gs org dst i =
     \<lparr>waypoints = Some (gs ! i),
      origin = Some (if i = 0 then org else last (gs ! (i - 1))),
      destination = Some (if Suc i = length gs then dst else hd (gs ! Suc i))\<rparr>"

text \<open>A run of chunks: every chunk but the last has its continuation flag set.\<close>

definition is_run :: "nat list \<Rightarrow> bool" where
  "is_run r = (r \<noteq> [] \<and> list_all (\<lambda>c. 32 \<le> c) (butlast r) \<and> last r < 32)"

text \<open>
  What the loop of lines 79 to 83 leaves in \<^verbatim>\<open>result\<close> for the chunks of a run,
  when it starts with the shift count \<open>shift\<close> and \<^verbatim>\<open>result\<close> zero.
\<close>

fun run_word :: "nat \<Rightarrow> nat list \<Rightarrow> 32 word" where
  "run_word shift [] = 0"
| "run_word shift (c # cs) =
     push_bit (shift mod 32) (word_of_nat (c mod 32)) OR run_word (shift + 5) cs"

text \<open>The code units of a text of ASCII characters, and sample data.\<close>

definition code_units :: "string \<Rightarrow> encoded" where
  "code_units s = map (\<lambda>c. of_nat (of_char c)) s"

definition sample_marker :: "nat \<Rightarrow> Marker" where
  "sample_marker i = \<lparr>latitude = Some (1 + real i), longitude = Some (2 + real i)\<rparr>"

definition sample_props :: "nat Props" where
  "sample_props =
     \<lparr>apikey = ''KEY'', region = [], onStart = True, onReady = True, onError = True,
      filterRoute = None, mode = ''DRIVING'', language = ''en'', optimizeWaypoints = False,
      splitWaypoints = True, directionsServiceBaseUrl = ''https://host/json'',
      precision = ''low'', timePrecision = ''none'', channel = None,
      avoidTolls = False, avoidHighways = False, avoidFerries = False\<rparr>"

definition sample_engine :: "(string \<Rightarrow> (string + nat Json) option) \<Rightarrow> nat Engine" where
  "sample_engine transport =
     \<lparr>number_text = (\<lambda>x. if x = 1 then ''1'' else if x = 2 then ''2'' else ''n''),
      type_error_text = ''TypeError'',
      fetch_json = transport\<rparr>"

definition sample_state :: ViewState where
  "sample_state =
     \<lparr>coordinates_state = Some [sample_marker 7], distance_state = None, duration_state = None\<rparr>"

text \<open>
  A transport for two routes: the request whose origin starts with the character 1
  gets the answer \<open>first\<close>, every other request the answer \<open>other\<close>.
\<close>

definition sample_transport :: "nat Json \<Rightarrow> nat Json \<Rightarrow> string \<Rightarrow> (string + nat Json) option" where
  "sample_transport first other url =
     (if 25 < length url \<and> url ! 25 = CHR ''1'' then Some (Inr first) else Some (Inr other))"

definition sample_route :: "nat RouteJson" where
  "sample_route =
     \<lparr>json_legs = [\<lparr>distance_value = 3000, duration_value = 120, duration_in_traffic = Some 180,
                    steps = [code_units ''_p~iF~ps|U'']\<rparr>],
      overview_polyline = code_units ''_p~iF~ps|U'',
      json_fare = Some 4, waypoint_order = Some [0]\<rparr>"

section \<open>Properties\<close>

subsection \<open>Splitting the waypoints\<close>

lemma length_slices: "length (slices L xs) = (length xs + L - 1) div L"
  by (simp add: slices_def)

lemma chunk_step_slices:
  "chunk_step (map Some (slices WAYPOINT_LIMIT xs)) y (length xs) = map Some (slices WAYPOINT_LIMIT (xs @ [y]))"
proof (cases "length xs mod 10 = 0")
  case True
  then obtain q where q: "length xs = 10 * q" by auto
  have n1: "(length xs + 10 - 1) div 10 = q" using q by simp
  have n2: "(length (xs @ [y]) + 10 - 1) div 10 = Suc q" using q by simp
  have old: "\<And>j. j < q \<Longrightarrow> take 10 (drop (10 * j) (xs @ [y])) = take 10 (drop (10 * j) xs)"
    using q by simp
  have new: "take 10 (drop (10 * q) (xs @ [y])) = [y]" using q by simp
  show ?thesis
    unfolding chunk_step_def slices_def WAYPOINT_LIMIT_def n1 n2 Let_def
    using q old new by (simp add: array_get_def array_set_def)
next
  case False
  define q where "q = length xs div 10"
  define r where "r = length xs mod 10"
  have r: "0 < r" "r < 10" and len: "length xs = 10 * q + r" using False by (auto simp: q_def r_def)
  have n1: "(length xs + 10 - 1) div 10 = Suc q" using len r by simp
  have n2: "(length (xs @ [y]) + 10 - 1) div 10 = Suc q" using len r by simp
  have dq: "length xs div 10 = q" by (simp add: q_def)
  have old: "\<And>j. j < q \<Longrightarrow> take 10 (drop (10 * j) (xs @ [y])) = take 10 (drop (10 * j) xs)"
    using len by simp
  have new: "take 10 (drop (10 * q) (xs @ [y])) = take 10 (drop (10 * q) xs) @ [y]" using len r by simp
  show ?thesis
    unfolding chunk_step_def slices_def WAYPOINT_LIMIT_def n1 n2 Let_def dq
    using old new by (simp add: array_get_def array_set_def nth_append list_update_append)
qed

lemma reduce_slices:
  "reduce_index chunk_step (map Some (slices WAYPOINT_LIMIT xs)) (length xs) ys
     = map Some (slices WAYPOINT_LIMIT (xs @ ys))"
proof (induction ys arbitrary: xs)
  case Nil
  then show ?case by simp
next
  case (Cons y ys)
  have "reduce_index chunk_step (map Some (slices WAYPOINT_LIMIT xs)) (length xs) (y # ys)
      = reduce_index chunk_step (map Some (slices WAYPOINT_LIMIT (xs @ [y]))) (length (xs @ [y])) ys"
    by (simp add: chunk_step_slices)
  also have "\<dots> = map Some (slices WAYPOINT_LIMIT ((xs @ [y]) @ ys))"
    by (rule Cons.IH)
  finally show ?case by simp
qed

lemma chunckedWaypoints_slices: "chunckedWaypoints ws = map Some (slices WAYPOINT_LIMIT ws)"
  using reduce_slices [of "[]" ws] by (simp add: chunckedWaypoints_def slices_def WAYPOINT_LIMIT_def)

lemma slices_nth: "i < length (slices L xs) \<Longrightarrow> slices L xs ! i = take L (drop (L * i) xs)"
  by (simp add: slices_def)

lemma slices_index_bound:
  assumes "0 < L" "i < (n + L - 1) div L"
  shows "L * i < (n::nat)"
proof (rule ccontr)
  assume "\<not> L * i < n"
  then have "n + L - 1 < (Suc i) * L" using assms(1) by (simp add: algebra_simps)
  then have "(n + L - 1) div L < Suc i" by (rule less_mult_imp_div_less)
  with assms(2) show False by simp
qed

lemma slices_cover:
  assumes "0 < L"
  shows "(n::nat) \<le> L * ((n + L - 1) div L)"
proof -
  have "n + L - 1 = L * ((n + L - 1) div L) + (n + L - 1) mod L" by simp
  moreover have "(n + L - 1) mod L < L" using assms by simp
  ultimately show ?thesis by linarith
qed

lemma slices_nonempty:
  assumes "0 < L" "i < length (slices L xs)"
  shows "slices L xs ! i \<noteq> []"
proof -
  have "i < (length xs + L - 1) div L" using assms by (simp add: slices_def)
  then have "L * i < length xs" using assms(1) by (rule slices_index_bound [rotated])
  then show ?thesis using assms by (simp add: slices_def)
qed

lemma concat_take_drop:
  "concat (map (\<lambda>j. take L (drop (L * j) xs)) [0 ..< k]) = take (L * k) xs"
proof (induction k)
  case 0
  then show ?case by simp
next
  case (Suc k)
  have "take (L * Suc k) xs = take (L * k + L) xs" by (simp add: add.commute)
  also have "\<dots> = take (L * k) xs @ take L (drop (L * k) xs)" by (rule take_add)
  finally show ?case using Suc by simp
qed

lemma concat_slices: "0 < L \<Longrightarrow> concat (slices L xs) = xs"
  using slices_cover [of L "length xs"] by (simp add: slices_def concat_take_drop)

lemma ceiling_div: "0 < L \<Longrightarrow> nat \<lceil>real n / real L\<rceil> = (n + L - 1) div L"
proof -
  assume L: "0 < L"
  define k where "k = (n + L - 1) div L"
  have "n \<le> L * k" unfolding k_def using L by (rule slices_cover)
  then have "real n \<le> real L * real k" by (metis of_nat_le_iff of_nat_mult)
  then have up: "real n / real L \<le> of_int (int k)" using L by (simp add: divide_le_eq mult.commute)
  have lo: "of_int (int k) - 1 < real n / real L"
  proof (cases "k = 0")
    case True
    have "0 \<le> real n / real L" by simp
    then have "- 1 < real n / real L" by linarith
    then show ?thesis using True by simp
  next
    case False
    then have "k - 1 < (n + L - 1) div L" by (simp add: k_def)
    with L have "L * (k - 1) < n" by (rule slices_index_bound)
    then have "real L * real (k - 1) < real n" by (metis of_nat_less_iff of_nat_mult)
    moreover have "real (k - 1) = real k - 1" using False by (simp add: of_nat_diff)
    ultimately show ?thesis using L by (simp add: less_divide_eq mult.commute)
  qed
  have "\<lceil>real n / real L\<rceil> = int k" using lo up by (rule ceiling_unique)
  then show ?thesis by (simp add: k_def)
qed

lemma collect_map: "(\<And>x. x \<in> set xs \<Longrightarrow> f x = Inr (g x)) \<Longrightarrow> collect f xs = Inr (map g xs)"
  by (induction xs) simp_all

lemma chunk_route_slices:
  assumes "\<And>j. j < length gs \<Longrightarrow> gs ! j \<noteq> []" "i < length gs"
  shows "chunk_route (map Some gs) org dst i = Inr (slice_route gs org dst i)"
proof -
  have prev: "i \<noteq> 0 \<Longrightarrow> elem (gs ! (i - 1)) (int (length (gs ! (i - 1))) - 1) = Some (last (gs ! (i - 1)))"
    using assms(1) [of "i - 1"] assms(2) by (simp add: elem_def last_conv_nth nat_diff_distrib')
  have nxt: "Suc i < length gs \<Longrightarrow> elem (gs ! Suc i) 0 = Some (hd (gs ! Suc i))"
    using assms(1) [of "Suc i"] by (simp add: elem_def hd_conv_nth)
  show ?thesis
    using assms(2) prev nxt
    by (auto simp: chunk_route_def slice_route_def array_get_def)
qed

lemma build_routes_split:
  assumes "split" "WAYPOINT_LIMIT < length ws"
  shows "build_routes split (Some ws) org dst =
           Inr (map (slice_route (slices WAYPOINT_LIMIT ws) org dst) [0 ..< length (slices WAYPOINT_LIMIT ws)])"
proof -
  have ne: "\<And>j. j < length (slices WAYPOINT_LIMIT ws) \<Longrightarrow> slices WAYPOINT_LIMIT ws ! j \<noteq> []"
    by (rule slices_nonempty) (simp_all add: WAYPOINT_LIMIT_def)
  have "collect (chunk_route (map Some (slices WAYPOINT_LIMIT ws)) org dst) [0 ..< length (slices WAYPOINT_LIMIT ws)]
      = Inr (map (slice_route (slices WAYPOINT_LIMIT ws) org dst) [0 ..< length (slices WAYPOINT_LIMIT ws)])"
    by (rule collect_map) (simp add: chunk_route_slices ne)
  then show ?thesis using assms by (simp add: build_routes_def chunckedWaypoints_slices)
qed

lemma build_routes_single:
  assumes "\<not> (split \<and> (\<exists>ws. wps = Some ws \<and> WAYPOINT_LIMIT < length ws))"
  shows "build_routes split wps org dst =
           Inr [\<lparr>waypoints = Some (case wps of None \<Rightarrow> [] | Some ws \<Rightarrow> ws),
                 origin = Some org, destination = Some dst\<rparr>]"
  using assms by (cases wps) (auto simp: build_routes_def)


text \<open>
  C1. With splitting enabled and more than \<open>WAYPOINT_LIMIT\<close> waypoints, the routes
  are built without an exception, there are \<open>ceil(n / WAYPOINT_LIMIT)\<close> of them, the
  waypoints of route \<open>i\<close> are the slice of length \<open>WAYPOINT_LIMIT\<close> that starts at
  \<open>WAYPOINT_LIMIT * i\<close>, and the slices concatenated in the order of the routes are
  the waypoints given. Otherwise there is one route, with all the waypoints (none when
  the property is absent) and the origin and destination given.
\<close>

theorem chunk_coverage:
  "(split \<and> WAYPOINT_LIMIT < length ws \<longrightarrow>
      (\<exists>rs. build_routes split (Some ws) org dst = Inr rs
         \<and> length rs = nat \<lceil>real (length ws) / real WAYPOINT_LIMIT\<rceil>
         \<and> (\<forall>i < length rs.
               waypoints (rs ! i) = Some (take WAYPOINT_LIMIT (drop (WAYPOINT_LIMIT * i) ws)))
         \<and> concat (map (\<lambda>r. case waypoints r of None \<Rightarrow> [] | Some g \<Rightarrow> g) rs) = ws))
   \<and> (\<not> (split \<and> WAYPOINT_LIMIT < length ws) \<longrightarrow>
        build_routes split (Some ws) org dst =
          Inr [\<lparr>waypoints = Some ws, origin = Some org, destination = Some dst\<rparr>])
   \<and> build_routes split None org dst =
         Inr [\<lparr>waypoints = Some [], origin = Some org, destination = Some dst\<rparr>]"
proof (intro conjI impI)
  assume a: "split \<and> WAYPOINT_LIMIT < length ws"
  define gs where "gs = slices WAYPOINT_LIMIT ws"
  define rs where "rs = map (slice_route gs org dst) [0 ..< length gs]"
  have L: "0 < WAYPOINT_LIMIT" by (simp add: WAYPOINT_LIMIT_def)
  have 1: "build_routes split (Some ws) org dst = Inr rs"
    using a by (simp add: build_routes_split rs_def gs_def)
  have 2: "length rs = nat \<lceil>real (length ws) / real WAYPOINT_LIMIT\<rceil>"
    using L by (simp add: rs_def gs_def length_slices ceiling_div)
  have 3: "\<forall>i < length rs. waypoints (rs ! i) = Some (take WAYPOINT_LIMIT (drop (WAYPOINT_LIMIT * i) ws))"
    by (simp add: rs_def gs_def slice_route_def slices_nth)
  have "map (\<lambda>r. case waypoints r of None \<Rightarrow> [] | Some g \<Rightarrow> g) rs = gs"
    by (rule nth_equalityI) (simp_all add: rs_def slice_route_def)
  then have 4: "concat (map (\<lambda>r. case waypoints r of None \<Rightarrow> [] | Some g \<Rightarrow> g) rs) = ws"
    using L by (simp add: gs_def concat_slices)
  from 1 2 3 4
  show "\<exists>rs. build_routes split (Some ws) org dst = Inr rs
         \<and> length rs = nat \<lceil>real (length ws) / real WAYPOINT_LIMIT\<rceil>
         \<and> (\<forall>i < length rs.
               waypoints (rs ! i) = Some (take WAYPOINT_LIMIT (drop (WAYPOINT_LIMIT * i) ws)))
         \<and> concat (map (\<lambda>r. case waypoints r of None \<Rightarrow> [] | Some g \<Rightarrow> g) rs) = ws"
    by blast
next
  assume "\<not> (split \<and> WAYPOINT_LIMIT < length ws)"
  then show "build_routes split (Some ws) org dst =
          Inr [\<lparr>waypoints = Some ws, origin = Some org, destination = Some dst\<rparr>]"
    by (simp add: build_routes_single)
next
  show "build_routes split None org dst =
         Inr [\<lparr>waypoints = Some [], origin = Some org, destination = Some dst\<rparr>]"
    by (simp add: build_routes_single)
qed

theorem chunk_coverage_witness:
  "(\<exists>rs. build_routes True (Some (map sample_marker [0 ..< 23])) (sample_marker 100) (sample_marker 200) = Inr rs
      \<and> length rs = 3
      \<and> waypoints (rs ! 2) = Some (map sample_marker [20 ..< 23]))
   \<and> build_routes True (Some (map sample_marker [0 ..< 10])) (sample_marker 100) (sample_marker 200) =
         Inr [\<lparr>waypoints = Some (map sample_marker [0 ..< 10]),
               origin = Some (sample_marker 100), destination = Some (sample_marker 200)\<rparr>]"
  using chunk_coverage [of True "map sample_marker [0 ..< 23]" "sample_marker 100" "sample_marker 200"]
        chunk_coverage [of True "map sample_marker [0 ..< 10]" "sample_marker 100" "sample_marker 200"]
  by (auto simp: WAYPOINT_LIMIT_def drop_map take_map)

text \<open>
  C2. The routes are always built. The origin of the first route is the origin given
  and the destination of the last route is the destination given. The origin of every
  route but the first is the last waypoint of the route before it, and the destination
  of every route but the last is the first waypoint of the route after it; this holds
  in particular for every route that is neither the first nor the last.
\<close>

theorem chunk_boundaries:
  "\<exists>rs. build_routes split wps org dst = Inr rs \<and> rs \<noteq> []
      \<and> origin (rs ! 0) = Some org
      \<and> destination (rs ! (length rs - 1)) = Some dst
      \<and> (\<forall>i. 0 < i \<and> i < length rs \<longrightarrow>
             (\<exists>g. waypoints (rs ! (i - 1)) = Some g \<and> g \<noteq> [] \<and> origin (rs ! i) = Some (last g)))
      \<and> (\<forall>i. i + 1 < length rs \<longrightarrow>
             (\<exists>g. waypoints (rs ! (i + 1)) = Some g \<and> g \<noteq> [] \<and> destination (rs ! i) = Some (hd g)))"
proof (cases "split \<and> (\<exists>ws. wps = Some ws \<and> WAYPOINT_LIMIT < length ws)")
  case False
  then show ?thesis by (simp add: build_routes_single)
next
  case True
  then obtain ws where ws: "wps = Some ws" "WAYPOINT_LIMIT < length ws" and split: "split" by blast
  define gs where "gs = slices WAYPOINT_LIMIT ws"
  define rs where "rs = map (slice_route gs org dst) [0 ..< length gs]"
  have ne: "\<And>j. j < length gs \<Longrightarrow> gs ! j \<noteq> []"
    unfolding gs_def by (rule slices_nonempty) (simp_all add: WAYPOINT_LIMIT_def)
  have "length ws \<le> WAYPOINT_LIMIT * length gs"
    unfolding gs_def length_slices by (rule slices_cover) (simp add: WAYPOINT_LIMIT_def)
  with ws(2) have pos: "0 < length gs"
    by (cases "length gs") simp_all
  have 1: "build_routes split wps org dst = Inr rs"
    using ws split by (simp add: build_routes_split rs_def gs_def)
  have 2: "rs \<noteq> []" using pos by (simp add: rs_def)
  have 3: "origin (rs ! 0) = Some org" using pos by (simp add: rs_def slice_route_def)
  have 4: "destination (rs ! (length rs - 1)) = Some dst"
    using pos by (simp add: rs_def slice_route_def)
  have 5: "\<forall>i. 0 < i \<and> i < length rs \<longrightarrow>
             (\<exists>g. waypoints (rs ! (i - 1)) = Some g \<and> g \<noteq> [] \<and> origin (rs ! i) = Some (last g))"
  proof (intro allI impI)
    fix i assume i: "0 < i \<and> i < length rs"
    then have "i - 1 < length gs" "i < length gs" by (auto simp: rs_def)
    then have "waypoints (rs ! (i - 1)) = Some (gs ! (i - 1))" "gs ! (i - 1) \<noteq> []"
      "origin (rs ! i) = Some (last (gs ! (i - 1)))"
      using i ne by (simp_all add: rs_def slice_route_def)
    then show "\<exists>g. waypoints (rs ! (i - 1)) = Some g \<and> g \<noteq> [] \<and> origin (rs ! i) = Some (last g)"
      by blast
  qed
  have 6: "\<forall>i. i + 1 < length rs \<longrightarrow>
             (\<exists>g. waypoints (rs ! (i + 1)) = Some g \<and> g \<noteq> [] \<and> destination (rs ! i) = Some (hd g))"
  proof (intro allI impI)
    fix i assume i: "i + 1 < length rs"
    then have "i + 1 < length gs" "i < length gs" by (auto simp: rs_def)
    then have "waypoints (rs ! (i + 1)) = Some (gs ! (i + 1))" "gs ! (i + 1) \<noteq> []"
      "destination (rs ! i) = Some (hd (gs ! (i + 1)))"
      using ne by (simp_all add: rs_def slice_route_def)
    then show "\<exists>g. waypoints (rs ! (i + 1)) = Some g \<and> g \<noteq> [] \<and> destination (rs ! i) = Some (hd g)"
      by blast
  qed
  from 1 2 3 4 5 6 show ?thesis by blast
qed

theorem chunk_boundaries_witness:
  "\<exists>rs. build_routes True (Some (map sample_marker [0 ..< 23])) (sample_marker 100) (sample_marker 200) = Inr rs
      \<and> length rs = 3
      \<and> origin (rs ! 0) = Some (sample_marker 100)
      \<and> origin (rs ! 1) = Some (sample_marker 9)
      \<and> destination (rs ! 1) = Some (sample_marker 20)
      \<and> destination (rs ! 2) = Some (sample_marker 200)"
proof -
  let ?W = "map sample_marker [0 ..< 23]"
  let ?gs = "slices WAYPOINT_LIMIT ?W"
  let ?rs = "map (slice_route ?gs (sample_marker 100) (sample_marker 200)) [0 ..< length ?gs]"
  have b: "build_routes True (Some ?W) (sample_marker 100) (sample_marker 200) = Inr ?rs"
    by (rule build_routes_split) (simp_all add: WAYPOINT_LIMIT_def)
  have len: "length ?gs = 3" by (simp add: length_slices WAYPOINT_LIMIT_def)
  have w0: "waypoints (?rs ! 0) = Some (map sample_marker [0 ..< 10])"
    using len by (simp add: slice_route_def slices_nth WAYPOINT_LIMIT_def take_map)
  have w2: "waypoints (?rs ! 2) = Some (map sample_marker [20 ..< 23])"
    using len by (simp add: slice_route_def slices_nth WAYPOINT_LIMIT_def take_map drop_map)
  have l0: "last (map sample_marker [0 ..< 10]) = sample_marker 9"
    by (simp add: last_map)
  have h2: "hd (map sample_marker [20 ..< 23]) = sample_marker 20"
    by (simp add: hd_map upt_rec)
  from chunk_boundaries [of True "Some ?W" "sample_marker 100" "sample_marker 200"]
  show ?thesis
    unfolding b using len w0 w2 l0 h2
    by (auto dest!: spec [of _ 1])
qed

subsection \<open>Combining the results\<close>

lemma foldl_combine:
  "foldl combine acc rs =
     \<lparr>coordinates = coordinates acc @ concat (map route_coordinates rs),
      distance = foldl (+) (distance acc) (map route_distance rs),
      duration = foldl (+) (duration acc) (map route_duration rs),
      fares = fares acc @ map route_fare rs,
      legs = (if rs = [] then legs acc else route_legs (last rs)),
      waypointOrder = waypointOrder acc @ map route_waypointOrder rs\<rparr>"
proof (induction rs arbitrary: acc)
  case Nil
  then show ?case by simp
next
  case (Cons r rs)
  show ?case
    unfolding foldl_Cons Cons.IH by (simp add: combine_def)
qed

text \<open>
  C4. The path of the combined result is the concatenation of the paths of the routes
  in their order; its distance and duration are the sums of the distances and
  durations, added from zero in the order of the routes; its fares and waypoint orders
  are those of the routes, one entry for each route, in their order.
\<close>

theorem aggregate_fields:
  "coordinates (aggregate rs) = concat (map route_coordinates rs)
   \<and> distance (aggregate rs) = foldl (+) 0 (map route_distance rs)
   \<and> duration (aggregate rs) = foldl (+) 0 (map route_duration rs)
   \<and> fares (aggregate rs) = map route_fare rs
   \<and> waypointOrder (aggregate rs) = map route_waypointOrder rs
   \<and> length (fares (aggregate rs)) = length rs
   \<and> length (waypointOrder (aggregate rs)) = length rs"
  unfolding aggregate_def foldl_combine by simp

text \<open>
  C7. The legs of the combined result are the legs of the last route of the
  reduction, whatever the legs of the routes before it.
\<close>

theorem aggregate_legs_last:
  "rs \<noteq> [] \<Longrightarrow> legs (aggregate rs) = route_legs (rs ! (length rs - 1))"
  unfolding aggregate_def foldl_combine by (simp add: last_conv_nth)

theorem aggregate_legs_last_witness:
  "[\<lparr>route_distance = 1::nat, route_duration = 2, route_coordinates = [sample_marker 0],
      route_fare = Some (5::nat), route_waypointOrder = Some [0], route_legs = [''first'']\<rparr>,
    \<lparr>route_distance = 3, route_duration = 4, route_coordinates = [sample_marker 1],
      route_fare = None, route_waypointOrder = None, route_legs = [''second'']\<rparr>] \<noteq> []
   \<and> legs (aggregate
        [\<lparr>route_distance = 1::nat, route_duration = 2, route_coordinates = [sample_marker 0],
           route_fare = Some (5::nat), route_waypointOrder = Some [0], route_legs = [''first'']\<rparr>,
         \<lparr>route_distance = 3, route_duration = 4, route_coordinates = [sample_marker 1],
           route_fare = None, route_waypointOrder = None, route_legs = [''second'']\<rparr>]) = [''second'']"
  using aggregate_legs_last
    [of "[\<lparr>route_distance = 1::nat, route_duration = 2, route_coordinates = [sample_marker 0],
            route_fare = Some (5::nat), route_waypointOrder = Some [0], route_legs = [''first'']\<rparr>,
          \<lparr>route_distance = 3, route_duration = 4, route_coordinates = [sample_marker 1],
            route_fare = None, route_waypointOrder = None, route_legs = [''second'']\<rparr>]"]
  by simp

subsection \<open>Request strings and the guard of the effect\<close>

lemma truthy_iff: "truthy x \<longleftrightarrow> x \<noteq> None \<and> x \<noteq> Some 0"
  by (cases x) (simp_all add: truthy_def)

text \<open>
  C6. With \<^verbatim>\<open>optimizeWaypoints\<close> the waypoint string is not built from the joined
  coordinate strings but from the array of waypoint objects itself (line 173): for one
  waypoint with coordinates 1 and 2 it is \<^verbatim>\<open>optimize:true|[object Object]\<close>, while
  without optimization it is the text of 1, a comma and the text of 2.
\<close>

theorem optimize_waypoints_string:
  "route_request txt True
     \<lparr>waypoints = Some [\<lparr>latitude = Some 1, longitude = Some 2\<rparr>],
      origin = Some org, destination = Some dst\<rparr>
   = Inr \<lparr>originString = coordinate_string txt org,
          destinationString = coordinate_string txt dst,
          waypointsString = ''optimize:true|[object Object]''\<rparr>
   \<and> route_request txt False
     \<lparr>waypoints = Some [\<lparr>latitude = Some 1, longitude = Some 2\<rparr>],
      origin = Some org, destination = Some dst\<rparr>
   = Inr \<lparr>originString = coordinate_string txt org,
          destinationString = coordinate_string txt dst,
          waypointsString = txt 1 @ '','' @ txt 2\<rparr>"
  by (simp add: route_request_def template_waypoints_def object_text_def waypoint_entry_def
      entry_text_def truthy_def template_number_def)

text \<open>
  C10. When a coordinate of the origin or of the destination is zero, the effect does
  nothing: the state is unchanged, no request is made and no observer is called, as
  when the coordinate is missing. A waypoint with a zero coordinate is passed on by
  the callback of line 168 as the object itself, as one with a missing coordinate is,
  and its text in the joined string is that of an object.
\<close>

theorem zero_coordinate_is_missing:
  "(Some 0 \<in> {latitude ori, longitude ori, latitude des, longitude des} \<longrightarrow>
      effect eng props (Some ori) (Some des) wps order st = Inr (st, []))
   \<and> (None \<in> {latitude ori, longitude ori, latitude des, longitude des} \<longrightarrow>
      effect eng props (Some ori) (Some des) wps order st = Inr (st, []))
   \<and> (Some 0 \<in> {latitude w, longitude w} \<longrightarrow>
      waypoint_entry tx w = Inr w \<and> entry_text (waypoint_entry tx w) = ''[object Object]'')
   \<and> (None \<in> {latitude w, longitude w} \<longrightarrow>
      waypoint_entry tx w = Inr w \<and> entry_text (waypoint_entry tx w) = ''[object Object]'')"
  by (auto simp: effect_def waypoint_entry_def entry_text_def object_text_def truthy_iff)

theorem zero_coordinate_is_missing_witness:
  "Some 0 \<in> {latitude \<lparr>latitude = Some 0, longitude = Some 2\<rparr>, longitude \<lparr>latitude = Some 0, longitude = Some 2\<rparr>,
              latitude (sample_marker 1), longitude (sample_marker 1)}
   \<and> effect (sample_engine (\<lambda>url. None)) sample_props
        (Some \<lparr>latitude = Some 0, longitude = Some 2\<rparr>) (Some (sample_marker 1)) None [0] sample_state
      = Inr (sample_state, [])
   \<and> effect (sample_engine (\<lambda>url. None)) sample_props
        (Some \<lparr>latitude = None, longitude = Some 2\<rparr>) (Some (sample_marker 1)) None [0] sample_state
      = Inr (sample_state, [])
   \<and> waypoint_entry (\<lambda>x. ''n'') \<lparr>latitude = Some 3, longitude = Some 0\<rparr>
      = Inr \<lparr>latitude = Some 3, longitude = Some 0\<rparr>
   \<and> waypoint_entry (\<lambda>x. ''n'') \<lparr>latitude = Some 3, longitude = None\<rparr>
      = Inr \<lparr>latitude = Some 3, longitude = None\<rparr>
   \<and> effect (sample_engine (\<lambda>url. None)) sample_props
        (Some (sample_marker 0)) (Some (sample_marker 1)) None [0] sample_state
      = Inr (sample_state,
             [OnStart ''1,2'' ''2,n'' [],
              Fetch ''https://host/json?origin=1,2&waypoints=&destination=2,n&key=KEY&mode=driving&language=en&region=''])"
proof -
  have run: "effect (sample_engine (\<lambda>url. None)) sample_props
        (Some (sample_marker 0)) (Some (sample_marker 1)) None [0] sample_state
      = Inr (sample_state,
             [OnStart ''1,2'' ''2,n'' [],
              Fetch ''https://host/json?origin=1,2&waypoints=&destination=2,n&key=KEY&mode=driving&language=en&region=''])"
    by code_simp
  show ?thesis
    using zero_coordinate_is_missing
            [where ori = "\<lparr>latitude = Some 0, longitude = Some 2\<rparr>" and des = "sample_marker 1"
               and w = "\<lparr>latitude = Some 3, longitude = Some 0\<rparr>"
               and eng = "sample_engine (\<lambda>url. None)" and props = sample_props and wps = None
               and order = "[0]" and st = sample_state and tx = "\<lambda>x. ''n''"]
          zero_coordinate_is_missing
            [where ori = "\<lparr>latitude = None, longitude = Some 2\<rparr>" and des = "sample_marker 1"
               and w = "\<lparr>latitude = Some 3, longitude = None\<rparr>"
               and eng = "sample_engine (\<lambda>url. None)" and props = sample_props and wps = None
               and order = "[0]" and st = sample_state and tx = "\<lambda>x. ''n''"]
          run
    by simp
qed


subsection \<open>The answer of the provider\<close>

text \<open>
  C8. For a response that the transport delivers: when its status is not \<^verbatim>\<open>OK\<close>,
  the promise of \<^verbatim>\<open>fetchRoute\<close> is rejected with a message that ends with the
  \<^verbatim>\<open>error_message\<close> of the response when that is a non-empty string, else with
  the status when that is a non-empty string, else with \<^verbatim>\<open>Unknown error\<close>; when
  the status is \<^verbatim>\<open>OK\<close> and there is no route, the promise is rejected too. In each
  case the message starts with the prefix of line 323 and no result is produced.
\<close>

theorem fetchRoute_rejects:
  assumes "fetch_json eng (request_url props tps req) = Some (Inr json)"
  shows "(status json \<noteq> Some ''OK'' \<and> error_message json = Some m \<and> m \<noteq> [] \<longrightarrow>
            fetchRoute eng props tps req = Some (Inl (''Error on GMAPS route request: '' @ m)))
       \<and> (status json = Some s \<and> s \<noteq> ''OK'' \<and> s \<noteq> [] \<and> \<not> truthy_string (error_message json) \<longrightarrow>
            fetchRoute eng props tps req = Some (Inl (''Error on GMAPS route request: '' @ s)))
       \<and> (status json \<noteq> Some ''OK'' \<and> \<not> truthy_string (status json) \<and> \<not> truthy_string (error_message json) \<longrightarrow>
            fetchRoute eng props tps req = Some (Inl ''Error on GMAPS route request: Unknown error''))
       \<and> (status json = Some ''OK'' \<and> routes json = [] \<longrightarrow>
            fetchRoute eng props tps req = Some (Inl ''Error on GMAPS route request: undefined''))"
proof (intro conjI impI)
  assume "status json \<noteq> Some ''OK'' \<and> error_message json = Some m \<and> m \<noteq> []"
  then have "on_json props json = Some (Inl (Message m))"
    by (simp add: on_json_def truthy_string_def)
  with assms show "fetchRoute eng props tps req = Some (Inl (''Error on GMAPS route request: '' @ m))"
    by (simp add: fetchRoute_def request_error_def reason_text_def)
next
  assume "status json = Some s \<and> s \<noteq> ''OK'' \<and> s \<noteq> [] \<and> \<not> truthy_string (error_message json)"
  then have "on_json props json = Some (Inl (Message s))"
    by (simp add: on_json_def truthy_string_def)
  with assms show "fetchRoute eng props tps req = Some (Inl (''Error on GMAPS route request: '' @ s))"
    by (simp add: fetchRoute_def request_error_def reason_text_def)
next
  assume "status json \<noteq> Some ''OK'' \<and> \<not> truthy_string (status json) \<and> \<not> truthy_string (error_message json)"
  then have "on_json props json = Some (Inl (Message ''Unknown error''))"
    by (simp add: on_json_def)
  with assms show "fetchRoute eng props tps req = Some (Inl ''Error on GMAPS route request: Unknown error'')"
    by (simp add: fetchRoute_def request_error_def reason_text_def)
next
  assume "status json = Some ''OK'' \<and> routes json = []"
  then have "on_json props json = Some (Inl Undefined)"
    by (simp add: on_json_def)
  with assms show "fetchRoute eng props tps req = Some (Inl ''Error on GMAPS route request: undefined'')"
    by (simp add: fetchRoute_def request_error_def reason_text_def)
qed

theorem fetchRoute_rejects_witness:
  "fetchRoute
     (sample_engine (\<lambda>url. Some (Inr \<lparr>status = Some ''REQUEST_DENIED'', error_message = Some ''bad key'', routes = []\<rparr>)))
     sample_props [] \<lparr>originString = ''1,2'', destinationString = ''2,1'', waypointsString = []\<rparr>
     = Some (Inl ''Error on GMAPS route request: bad key'')
   \<and> fetchRoute
     (sample_engine (\<lambda>url. Some (Inr \<lparr>status = Some ''ZERO_RESULTS'', error_message = None, routes = []\<rparr>)))
     sample_props [] \<lparr>originString = ''1,2'', destinationString = ''2,1'', waypointsString = []\<rparr>
     = Some (Inl ''Error on GMAPS route request: ZERO_RESULTS'')
   \<and> fetchRoute
     (sample_engine (\<lambda>url. Some (Inr \<lparr>status = None, error_message = Some [], routes = []\<rparr>)))
     sample_props [] \<lparr>originString = ''1,2'', destinationString = ''2,1'', waypointsString = []\<rparr>
     = Some (Inl ''Error on GMAPS route request: Unknown error'')
   \<and> fetchRoute
     (sample_engine (\<lambda>url. Some (Inr \<lparr>status = Some ''OK'', error_message = None, routes = []\<rparr>)))
     sample_props [] \<lparr>originString = ''1,2'', destinationString = ''2,1'', waypointsString = []\<rparr>
     = Some (Inl ''Error on GMAPS route request: undefined'')"
proof -
  let ?req = "\<lparr>originString = ''1,2'', destinationString = ''2,1'', waypointsString = []\<rparr>"
  have t: "\<And>json. fetch_json (sample_engine (\<lambda>url. Some (Inr json))) (request_url sample_props [] ?req)
             = Some (Inr json)"
    by (simp add: sample_engine_def)
  show ?thesis
    using fetchRoute_rejects [OF t, where m = "''bad key''" and s = "''x''"
            and json = "\<lparr>status = Some ''REQUEST_DENIED'', error_message = Some ''bad key'', routes = []\<rparr>"]
          fetchRoute_rejects [OF t, where m = "''x''" and s = "''ZERO_RESULTS''"
            and json = "\<lparr>status = Some ''ZERO_RESULTS'', error_message = None, routes = []\<rparr>"]
          fetchRoute_rejects [OF t, where m = "''x''" and s = "''x''"
            and json = "\<lparr>status = None, error_message = Some [], routes = []\<rparr>"]
          fetchRoute_rejects [OF t, where m = "''x''" and s = "''x''"
            and json = "\<lparr>status = Some ''OK'', error_message = None, routes = []\<rparr>"]
    by (simp add: truthy_string_def)
qed

subsection \<open>A run in which a request fails\<close>

lemma array_get_Some_less: "array_get ps i = Some x \<Longrightarrow> i < length ps"
  by (simp add: array_get_def split: if_splits)

lemma settle_all_rejects:
  assumes "k < length order"
    and "array_get ps (order ! k) = Some (Inl m)"
    and "\<forall>j<k. \<forall>m'. array_get ps (order ! j) \<noteq> Some (Inl m')"
    and "\<forall>j\<in>set seen. \<exists>v. array_get ps j = Some (Inr v)"
  shows "settle_all ps seen order = Some (Inl m)"
  using assms
proof (induction order arbitrary: k seen)
  case Nil
  then show ?case by simp
next
  case (Cons i order)
  show ?case
  proof (cases k)
    case 0
    with Cons.prems(2) show ?thesis by simp
  next
    case (Suc k')
    have k': "k' < length order" using Cons.prems(1) Suc by simp
    have bad: "array_get ps (order ! k') = Some (Inl m)" using Cons.prems(2) Suc by simp
    have before: "\<forall>j<k'. \<forall>m'. array_get ps (order ! j) \<noteq> Some (Inl m')"
      using Cons.prems(3) Suc by auto
    have first: "\<forall>m'. array_get ps i \<noteq> Some (Inl m')"
      using Cons.prems(3) Suc by auto
    show ?thesis
    proof (cases "array_get ps i")
      case None
      then show ?thesis
        using Cons.IH [OF k' bad before Cons.prems(4)] by simp
    next
      case (Some p)
      then obtain v where v: "array_get ps i = Some (Inr v)"
        using first by (cases p) auto
      have inv: "\<forall>j\<in>set (i # seen). \<exists>v. array_get ps j = Some (Inr v)"
        using v Cons.prems(4) by simp
      have "order ! k' < length ps" using bad by (rule array_get_Some_less)
      moreover have "order ! k' \<notin> set (i # seen)" using inv bad by auto
      ultimately have "\<not> list_all (\<lambda>j. j \<in> set (i # seen)) [0 ..< length ps]"
        by (auto simp: list_all_iff)
      then show ?thesis
        using v Cons.IH [OF k' bad before inv] by simp
    qed
  qed
qed

lemma first_rejection:
  assumes "i \<in> set order" "array_get ps i = Some (Inl msg)"
  shows "\<exists>k m. k < length order \<and> array_get ps (order ! k) = Some (Inl m)
           \<and> (\<forall>j<k. \<forall>m'. array_get ps (order ! j) \<noteq> Some (Inl m'))"
proof -
  let ?P = "\<lambda>k. k < length order \<and> (\<exists>m. array_get ps (order ! k) = Some (Inl m))"
  from assms obtain k0 where k0: "?P k0" by (auto simp: in_set_conv_nth)
  define k where "k = (LEAST k. ?P k)"
  have Pk: "?P k" unfolding k_def using k0 by (rule LeastI)
  have least: "\<And>j. j < k \<Longrightarrow> \<not> ?P j" unfolding k_def by (rule not_less_Least)
  from Pk obtain m where m: "array_get ps (order ! k) = Some (Inl m)" by blast
  have "\<forall>j<k. \<forall>m'. array_get ps (order ! j) \<noteq> Some (Inl m')"
  proof (intro allI impI)
    fix j m' assume j: "j < k"
    then have "j < length order" using Pk by simp
    with least [OF j] show "array_get ps (order ! j) \<noteq> Some (Inl m')" by blast
  qed
  with Pk m show ?thesis by blast
qed

lemma promise_all_rejects:
  assumes "k < length order" "array_get ps (order ! k) = Some (Inl m)"
    and "\<forall>j<k. \<forall>m'. array_get ps (order ! j) \<noteq> Some (Inl m')"
  shows "promise_all ps order = Some (Inl m)"
proof -
  have "ps \<noteq> []" using assms(2) by (auto simp: array_get_def)
  then show ?thesis
    using settle_all_rejects [OF assms, of "[]"] by (simp add: promise_all_def)
qed


lemma collect_defined:
  "(\<And>x. x \<in> set xs \<Longrightarrow> \<exists>y. f x = Inr y) \<Longrightarrow> \<exists>ys. collect f xs = Inr ys"
proof (induction xs)
  case Nil
  then show ?case by simp
next
  case (Cons x xs)
  obtain y where "f x = Inr y" using Cons.prems by auto
  moreover obtain ys where "collect f xs = Inr ys" using Cons by auto
  ultimately show ?case by simp
qed

lemma build_routes_defined:
  "\<exists>rts. build_routes split wps org dst = Inr rts
     \<and> (\<forall>r\<in>set rts. origin r \<noteq> None \<and> destination r \<noteq> None)"
proof (cases "split \<and> (\<exists>ws. wps = Some ws \<and> WAYPOINT_LIMIT < length ws)")
  case False
  then show ?thesis by (simp add: build_routes_single)
next
  case True
  then obtain ws where "wps = Some ws" "WAYPOINT_LIMIT < length ws" "split" by blast
  then show ?thesis by (auto simp: build_routes_split slice_route_def)
qed

text \<open>The routes and the requests of a run are always built: no exception leaves them.\<close>

lemma requests_defined:
  "\<exists>rts reqs. build_routes split wps org dst = Inr rts
     \<and> collect (route_request tx optimize) rts = Inr reqs"
proof -
  obtain rts where rts: "build_routes split wps org dst = Inr rts"
    "\<forall>r\<in>set rts. origin r \<noteq> None \<and> destination r \<noteq> None"
    using build_routes_defined by blast
  have "\<And>r. r \<in> set rts \<Longrightarrow> \<exists>q. route_request tx optimize r = Inr q"
    using rts(2) by (auto simp: route_request_def Let_def)
  then obtain reqs where "collect (route_request tx optimize) rts = Inr reqs"
    using collect_defined by blast
  with rts(1) show ?thesis by blast
qed

lemma fetchAndRenderRoute_defined:
  "\<exists>st' evs. fetchAndRenderRoute eng props org dst wps order st = Inr (st', evs)"
proof (cases "apikey props = [] \<or> org = None \<or> dst = None")
  case True
  then show ?thesis
    by (cases org; cases dst) (simp_all add: fetchAndRenderRoute_def)
next
  case False
  then obtain ori des where o: "org = Some ori" "dst = Some des" "apikey props \<noteq> []" by auto
  obtain rts reqs where r: "build_routes (splitWaypoints props) wps ori des = Inr rts"
    "collect (route_request (number_text eng) (optimizeWaypoints props)) rts = Inr reqs"
    using requests_defined by blast
  obtain st' evs where "handlers props st (promise_all (route_promises eng props reqs) order) = (st', evs)"
    by (cases "handlers props st (promise_all (route_promises eng props reqs) order)")
  then show ?thesis
    using o r by (simp add: fetchAndRenderRoute_def)
qed

text \<open>
  C5. In a run that reaches the requests, when a request that settles is rejected:
  there is a first rejection \<open>m\<close> in the order in which the requests settle; the
  run ends with the three state variables reset to \<^verbatim>\<open>null\<close>; no event of the
  run is a call of the ready observer; and the calls of the error observer are exactly
  one call with \<open>m\<close> when the observer is present (none when it is absent).
\<close>

theorem all_or_nothing:
  assumes "apikey props \<noteq> []"
    and "build_routes (splitWaypoints props) wps ori des = Inr rts"
    and "collect (route_request (number_text eng) (optimizeWaypoints props)) rts = Inr reqs"
    and "i \<in> set order"
    and "array_get (route_promises eng props reqs) i = Some (Inl msg)"
  shows "\<exists>k m st' evs.
           k < length order
           \<and> array_get (route_promises eng props reqs) (order ! k) = Some (Inl m)
           \<and> (\<forall>j<k. \<forall>m'. array_get (route_promises eng props reqs) (order ! j) \<noteq> Some (Inl m'))
           \<and> fetchAndRenderRoute eng props (Some ori) (Some des) wps order st = Inr (st', evs)
           \<and> st' = \<lparr>coordinates_state = None, distance_state = None, duration_state = None\<rparr>
           \<and> (\<forall>r. OnReady r \<notin> set evs)
           \<and> filter (\<lambda>e. case e of OnError x \<Rightarrow> True | _ \<Rightarrow> False) evs
               = (if onError props then [OnError m] else [])"
proof -
  let ?ps = "route_promises eng props reqs"
  let ?tps = "if timePrecision props = ''none'' then [] else timePrecision props"
  let ?started = "case reqs of [] \<Rightarrow> [] | r # x \<Rightarrow>
                    if onStart props
                    then [OnStart (originString r) (destinationString r) (waypointsString r) :: 'a event]
                    else []"
  let ?requests = "map (\<lambda>r. Fetch (request_url props ?tps r) :: 'a event) reqs"
  from first_rejection [OF assms(4) assms(5)]
  obtain k m where k: "k < length order" "array_get ?ps (order ! k) = Some (Inl m)"
    "\<forall>j<k. \<forall>m'. array_get ?ps (order ! j) \<noteq> Some (Inl m')"
    by blast
  have all: "promise_all ?ps order = Some (Inl m)"
    using k by (rule promise_all_rejects)
  define evs where
    "evs = ?started @ ?requests
           @ Warn (''MapDirections Error: '' @ m) # (if onError props then [OnError m] else [])"
  define st' where "st' = \<lparr>coordinates_state = None, distance_state = None, duration_state = None\<rparr>"
  have run: "fetchAndRenderRoute eng props (Some ori) (Some des) wps order st = Inr (st', evs)"
    using assms(1,2,3) all
    by (simp add: fetchAndRenderRoute_def handlers_def resetState_def evs_def st'_def)
  have started: "\<And>e. e \<in> set ?started \<Longrightarrow> \<exists>a b c. e = OnStart a b c"
    by (cases reqs) (auto split: if_splits)
  have noready: "\<forall>r. OnReady r \<notin> set evs"
    using started by (auto simp: evs_def)
  have fs: "filter (\<lambda>e. case e of OnError x \<Rightarrow> True | _ \<Rightarrow> False) ?started = []"
    by (cases reqs) simp_all
  have fr: "filter (\<lambda>e. case e of OnError x \<Rightarrow> True | _ \<Rightarrow> False) ?requests = []"
    by (simp add: filter_empty_conv)
  have errors: "filter (\<lambda>e. case e of OnError x \<Rightarrow> True | _ \<Rightarrow> False) evs
                  = (if onError props then [OnError m] else [])"
    unfolding evs_def filter_append fs fr by simp
  from k run noready errors show ?thesis
    unfolding st'_def by blast
qed


theorem all_or_nothing_witness:
  "fetchAndRenderRoute
     (sample_engine (sample_transport
        \<lparr>status = Some ''NOT_FOUND'', error_message = None, routes = []\<rparr>
        \<lparr>status = Some ''OK'', error_message = None, routes = [sample_route]\<rparr>))
     sample_props (Some (sample_marker 0)) (Some (sample_marker 1))
     (Some (map sample_marker [0 ..< 11])) [1, 0] sample_state
   = Inr (\<lparr>coordinates_state = None, distance_state = None, duration_state = None\<rparr>,
          [OnStart ''1,2'' ''n,n'' ''1,2|2,n|n,n|n,n|n,n|n,n|n,n|n,n|n,n|n,n'',
           Fetch ''https://host/json?origin=1,2&waypoints=1,2|2,n|n,n|n,n|n,n|n,n|n,n|n,n|n,n|n,n&destination=n,n&key=KEY&mode=driving&language=en&region='',
           Fetch ''https://host/json?origin=n,n&waypoints=n,n&destination=2,n&key=KEY&mode=driving&language=en&region='',
           Warn ''MapDirections Error: Error on GMAPS route request: NOT_FOUND'',
           OnError ''Error on GMAPS route request: NOT_FOUND''])
   \<and> (\<exists>r. array_get
          (route_promises
             (sample_engine (sample_transport
                \<lparr>status = Some ''NOT_FOUND'', error_message = None, routes = []\<rparr>
                \<lparr>status = Some ''OK'', error_message = None, routes = [sample_route]\<rparr>))
             sample_props
             [\<lparr>originString = ''1,2'', destinationString = ''n,n'',
                waypointsString = ''1,2|2,n|n,n|n,n|n,n|n,n|n,n|n,n|n,n|n,n''\<rparr>,
              \<lparr>originString = ''n,n'', destinationString = ''2,n'', waypointsString = ''n,n''\<rparr>])
          1 = Some (Inr r))"
proof -
  let ?eng = "sample_engine (sample_transport
        \<lparr>status = Some ''NOT_FOUND'', error_message = None, routes = []\<rparr>
        \<lparr>status = Some ''OK'', error_message = None, routes = [sample_route]\<rparr>)"
  let ?rts = "[\<lparr>waypoints = Some (map sample_marker [0 ..< 10]), origin = Some (sample_marker 0),
                 destination = Some (sample_marker 10)\<rparr>,
               \<lparr>waypoints = Some [sample_marker 10], origin = Some (sample_marker 9),
                 destination = Some (sample_marker 1)\<rparr>]"
  let ?reqs = "[\<lparr>originString = ''1,2'', destinationString = ''n,n'',
                waypointsString = ''1,2|2,n|n,n|n,n|n,n|n,n|n,n|n,n|n,n|n,n''\<rparr>,
              \<lparr>originString = ''n,n'', destinationString = ''2,n'', waypointsString = ''n,n''\<rparr>]"
  have h1: "apikey sample_props \<noteq> []" by (simp add: sample_props_def)
  have h2: "build_routes (splitWaypoints sample_props) (Some (map sample_marker [0 ..< 11]))
              (sample_marker 0) (sample_marker 1) = Inr ?rts"
    by code_simp
  have h3: "collect (route_request (number_text ?eng) (optimizeWaypoints sample_props)) ?rts = Inr ?reqs"
    by code_simp
  have h4: "0 \<in> set [1, 0 :: nat]" by simp
  have h5: "array_get (route_promises ?eng sample_props ?reqs) 0
              = Some (Inl ''Error on GMAPS route request: NOT_FOUND'')"
    by code_simp
  have ok: "array_get (route_promises ?eng sample_props ?reqs) 1
              = Some (Inr \<lparr>route_distance = 3, route_duration = 3,
                    route_coordinates = [point 3850000 (- 12020000)],
                    route_fare = Some 4, route_waypointOrder = Some [0],
                    route_legs = json_legs sample_route\<rparr>)"
    by code_simp
  have run: "fetchAndRenderRoute ?eng sample_props (Some (sample_marker 0)) (Some (sample_marker 1))
     (Some (map sample_marker [0 ..< 11])) [1, 0] sample_state
   = Inr (\<lparr>coordinates_state = None, distance_state = None, duration_state = None\<rparr>,
          [OnStart ''1,2'' ''n,n'' ''1,2|2,n|n,n|n,n|n,n|n,n|n,n|n,n|n,n|n,n'',
           Fetch ''https://host/json?origin=1,2&waypoints=1,2|2,n|n,n|n,n|n,n|n,n|n,n|n,n|n,n|n,n&destination=n,n&key=KEY&mode=driving&language=en&region='',
           Fetch ''https://host/json?origin=n,n&waypoints=n,n&destination=2,n&key=KEY&mode=driving&language=en&region='',
           Warn ''MapDirections Error: Error on GMAPS route request: NOT_FOUND'',
           OnError ''Error on GMAPS route request: NOT_FOUND''])"
    by code_simp
  from all_or_nothing [OF h1 h2 h3 h4 h5, of sample_state] run ok
  show ?thesis by blast
qed

subsection \<open>The decoder returns\<close>

lemma continues_in_range: "continues (char_code_minus_63 enc i) \<Longrightarrow> i < length enc"
  by (simp add: continues_def char_code_minus_63_def split: if_splits)

lemma read_run_returns:
  "\<exists>index' result'. read_run enc index shift result = Some (index', result') \<and> index < index'"
proof (induction "length enc - index" arbitrary: index shift result rule: less_induct)
  case less
  let ?b = "char_code_minus_63 enc index"
  let ?result = "result OR shift_left (to_int32 ?b AND 0x1f) shift"
  show ?case
  proof (cases "continues ?b")
    case True
    then have "index < length enc" by (rule continues_in_range)
    then have "length enc - (index + 1) < length enc - index" by simp
    from less [OF this, of "shift + 5" ?result]
    obtain i' r' where "read_run enc (index + 1) (shift + 5) ?result = Some (i', r')" "index + 1 < i'"
      by blast
    with True show ?thesis
      by (subst read_run.simps) (simp add: Let_def)
  next
    case False
    then show ?thesis
      by (subst read_run.simps) (simp add: Let_def)
  qed
qed

lemma decode_points_returns:
  "\<exists>ps. decode_points enc index lat lng points = Some ps"
proof (induction "length enc - index" arbitrary: index lat lng points rule: less_induct)
  case less
  show ?case
  proof (cases "index < length enc")
    case False
    then show ?thesis by (subst decode_points.simps) simp
  next
    case True
    obtain i1 r1 where r1: "read_run enc index 0 0 = Some (i1, r1)" "index < i1"
      using read_run_returns by blast
    obtain i2 r2 where r2: "read_run enc i1 0 0 = Some (i2, r2)" "i1 < i2"
      using read_run_returns by blast
    have "length enc - i2 < length enc - index" using True r1(2) r2(2) by simp
    from less [OF this]
    obtain ps where "decode_points enc i2 (lat + delta r1) (lng + delta r2)
                       (points @ [point (lat + delta r1) (lng + delta r2)]) = Some ps"
      by blast
    with True r1 r2 show ?thesis
      by (subst decode_points.simps) (simp add: Let_def)
  qed
qed

lemma decode_steps_returns: "\<exists>ps. decode_steps t points = Some ps"
proof (induction t arbitrary: points)
  case Nil
  then show ?case by simp
next
  case (Cons enc t)
  obtain ps where "decode_points enc 0 0 0 points = Some ps"
    using decode_points_returns by blast
  with Cons show ?case by simp
qed

text \<open>
  C9. For every array of encoded strings, of any code units and also cut short in the
  middle of a run, \<^verbatim>\<open>decode\<close> returns an array of points: both loops end, and the
  function has no operation that throws on a string.
\<close>

theorem decode_returns: "\<exists>points. decode t = Some points"
  unfolding decode_def by (rule decode_steps_returns)

subsection \<open>The decoder and the format\<close>

lemma data_bits_or: "a < 32 \<Longrightarrow> a + 32 * B = a OR push_bit 5 (B::nat)"
proof -
  assume a: "a < 32"
  have "a + push_bit 5 B = a OR push_bit 5 B"
  proof (rule disjunctive_add)
    fix n
    show "\<not> bit a n \<or> \<not> bit (push_bit 5 B) n"
    proof (cases "n < 5")
      case True
      then show ?thesis by (simp add: bit_push_bit_iff)
    next
      case False
      then have "(2::nat) ^ 5 \<le> 2 ^ n" by (intro power_increasing) simp_all
      then have "a < 2 ^ n" using a by simp
      then have "\<not> bit a n" by (simp add: bit_iff_odd)
      then show ?thesis by simp
    qed
  qed
  then show ?thesis by (simp add: push_bit_eq_mult)
qed

lemma word_data_bits_or:
  "a < 32 \<Longrightarrow> (word_of_nat (a + 32 * B) :: 32 word) = word_of_nat a OR push_bit 5 (word_of_nat B)"
  by (simp only: data_bits_or of_nat_or_eq of_nat_push_bit)

lemma low_five_bits: "(word_of_int (int n) :: 32 word) AND 0x1f = word_of_nat (n mod 32)"
proof -
  have "(word_of_nat n :: 32 word) AND mask 5 = word_of_nat (take_bit 5 n)"
    by (simp add: take_bit_eq_mask of_nat_and_eq of_nat_mask_eq)
  then show ?thesis by (simp add: take_bit_eq_mod mask_eq_exp_minus_1)
qed

lemma sint_word_of_nat:
  assumes "v < 2 ^ 31"
  shows "sint (word_of_nat v :: 32 word) = int v"
proof -
  have "int v < 2 ^ 31" using assms by (metis of_nat_less_iff of_nat_numeral of_nat_power)
  then have "signed_take_bit 31 (int v) = int v"
    by (intro signed_take_bit_int_eq_self) simp_all
  then show ?thesis by (simp add: signed_of_nat)
qed

lemma delta_zigzag:
  assumes v: "v < 2 ^ 31"
  shows "delta (word_of_nat v) = spec_zigzag v"
proof -
  let ?w = "word_of_nat v :: 32 word"
  have half: "sint (signed_drop_bit 1 ?w) = drop_bit 1 (int v)"
    by (simp only: sint_signed_drop_bit_eq sint_word_of_nat [OF v])
  define d where "d = drop_bit 1 (int v)"
  have range: "0 \<le> d" "d < 2 ^ 31"
    using v by (simp_all add: d_def drop_bit_eq_div)
  have "sint (NOT (signed_drop_bit 1 ?w)) = signed_take_bit 32 (NOT d)"
    unfolding d_def by (simp only: signed_not_eq half) simp
  also have "\<dots> = NOT d"
  proof (rule signed_take_bit_int_eq_self)
    show "- (2 ^ 32) \<le> NOT d" using range by (simp add: not_int_def)
    show "NOT d < 2 ^ 32" using range by (simp add: not_int_def)
  qed
  finally have neg: "sint (NOT (signed_drop_bit 1 ?w)) = NOT (drop_bit 1 (int v))"
    by (simp only: d_def)
  have "odd ?w \<longleftrightarrow> odd v"
    by (rule arg_cong [where f = Not, OF even_of_nat_iff])
  moreover have "?w AND 1 \<noteq> 0 \<longleftrightarrow> odd ?w"
    by (simp only: and_one_eq even_iff_mod_2_eq_zero)
  moreover have "int v AND 1 \<noteq> 0 \<longleftrightarrow> odd (int v)"
    by (simp only: and_one_eq even_iff_mod_2_eq_zero)
  moreover have "odd (int v) \<longleftrightarrow> odd v"
    by simp
  ultimately have odd: "?w AND 1 \<noteq> 0 \<longleftrightarrow> int v AND 1 \<noteq> 0"
    by blast
  show ?thesis
    unfolding delta_def spec_zigzag_def using half neg odd by simp
qed


lemma continuation_flag: "c < 64 \<Longrightarrow> bit c 5 \<longleftrightarrow> 32 \<le> (c::nat)"
proof -
  assume "c < 64"
  then have "c div 32 < 2" by simp
  then have "c div 32 = 0 \<or> c div 32 = 1" by auto
  then have "odd (c div 32) \<longleftrightarrow> 32 \<le> c" by (auto simp: div_eq_0_iff)
  then show ?thesis by (simp add: bit_iff_odd)
qed

lemma is_run_Cons:
  "is_run (c # r) \<longleftrightarrow> (if r = [] then c < 32 else 32 \<le> c \<and> is_run r)"
  by (simp add: is_run_def)

lemma spec_runs_first:
  assumes "cs \<noteq> []" "list_all (\<lambda>c. c < 64) cs" "last cs < 32"
  shows "\<exists>r rest. cs = r @ rest \<and> is_run r \<and> spec_runs cs = r # spec_runs rest
           \<and> (rest = [] \<or> last rest < 32)"
  using assms
proof (induction cs)
  case Nil
  then show ?case by simp
next
  case (Cons c cs)
  then have c: "c < 64" by simp
  show ?case
  proof (cases "32 \<le> c")
    case False
    then have "spec_runs (c # cs) = [c] # spec_runs cs"
      using c by (simp add: continuation_flag)
    moreover have "is_run [c]" using False by (simp add: is_run_Cons)
    moreover have "cs = [] \<or> last cs < 32" using Cons.prems(3) by (cases cs) simp_all
    ultimately show ?thesis by (intro exI [of _ "[c]"] exI [of _ cs]) simp
  next
    case True
    then have ne: "cs \<noteq> []" using Cons.prems(3) by auto
    then have "last cs < 32" using Cons.prems(3) by simp
    with Cons.IH ne Cons.prems(2)
    obtain r rest where r: "cs = r @ rest" "is_run r" "spec_runs cs = r # spec_runs rest"
      "rest = [] \<or> last rest < 32"
      by auto
    have "r \<noteq> []" using r(2) by (simp add: is_run_def)
    then have "is_run (c # r)" using True r(2) by (simp add: is_run_Cons)
    moreover have "spec_runs (c # cs) = (c # r) # spec_runs rest"
      using True c r(3) by (simp add: continuation_flag)
    ultimately show ?thesis using r(1,4) by (intro exI [of _ "c # r"] exI [of _ rest]) simp
  qed
qed

lemma run_word_accumulate:
  "push_bit shift (spec_accumulate r) < 2 ^ 32
     \<Longrightarrow> run_word shift r = push_bit shift (word_of_nat (spec_accumulate r))"
proof (induction r arbitrary: shift)
  case Nil
  then show ?case by simp
next
  case (Cons c r)
  let ?d = "c mod 32"
  let ?A = "spec_accumulate r"
  have total: "2 ^ shift * ?d + 2 ^ (shift + 5) * ?A < 2 ^ 32"
    using Cons.prems by (simp add: push_bit_eq_mult power_add algebra_simps)
  have "2 ^ (shift + 5) * ?A \<le> 2 ^ shift * ?d + 2 ^ (shift + 5) * ?A" by simp
  with total have "2 ^ (shift + 5) * ?A < 2 ^ 32" by (rule le_less_trans [rotated])
  then have "push_bit (shift + 5) ?A < 2 ^ 32"
    by (simp only: push_bit_eq_mult mult.commute)
  then have rest: "run_word (shift + 5) r = push_bit (shift + 5) (word_of_nat ?A)"
    by (rule Cons.IH)
  have first: "push_bit (shift mod 32) (word_of_nat ?d :: 32 word) = push_bit shift (word_of_nat ?d)"
  proof (cases "?d = 0")
    case True
    then show ?thesis by simp
  next
    case False
    then have "1 \<le> ?d" by simp
    then have "(2::nat) ^ shift * 1 \<le> 2 ^ shift * ?d" by (rule mult_le_mono2)
    also have "\<dots> \<le> 2 ^ shift * ?d + 2 ^ (shift + 5) * ?A" by simp
    also note total
    finally have "(2::nat) ^ shift < 2 ^ 32" by simp
    then have "shift < 32" by (rule power_less_imp_less_exp [rotated]) simp
    then show ?thesis by simp
  qed
  have "(word_of_nat (spec_accumulate (c # r)) :: 32 word)
          = word_of_nat ?d OR push_bit 5 (word_of_nat ?A)"
    unfolding spec_accumulate.simps by (rule word_data_bits_or) simp
  then have "push_bit shift (word_of_nat (spec_accumulate (c # r)) :: 32 word)
          = push_bit shift (word_of_nat ?d) OR push_bit (shift + 5) (word_of_nat ?A)"
    by (simp only: push_bit_or push_bit_push_bit add.commute [of shift 5])
  then show ?case
    by (simp only: run_word.simps first rest)
qed

lemma read_run_chunks:
  assumes "is_run r"
    and "index + length r \<le> length enc"
    and "\<forall>k<length r. 63 \<le> uint (enc ! (index + k)) \<and> chunk (enc ! (index + k)) = r ! k"
  shows "read_run enc index shift result = Some (index + length r, result OR run_word shift r)"
  using assms
proof (induction r arbitrary: index shift result)
  case Nil
  then show ?case by (simp add: is_run_def)
next
  case (Cons c r)
  have index: "index < length enc" using Cons.prems(2) by simp
  have "63 \<le> uint (enc ! index) \<and> chunk (enc ! index) = c"
    using Cons.prems(3) by (auto dest: spec [of _ 0])
  then have b: "char_code_minus_63 enc index = Some (int c)"
    using index by (auto simp: char_code_minus_63_def chunk_def)
  have step: "result OR shift_left (to_int32 (Some (int c)) AND 0x1f) shift
                = result OR push_bit (shift mod 32) (word_of_nat (c mod 32))"
    by (simp only: shift_left_def to_int32_def option.case low_five_bits)
  show ?case
  proof (cases "r = []")
    case True
    then have "c < 32" using Cons.prems(1) by (simp add: is_run_Cons)
    then have "\<not> continues (Some (int c))" by (simp add: continues_def)
    then show ?thesis
      using True b step by (subst read_run.simps) (simp add: Let_def)
  next
    case False
    then have c: "32 \<le> c" and r: "is_run r" using Cons.prems(1) by (simp_all add: is_run_Cons)
    have cont: "continues (Some (int c))" using c by (simp add: continues_def)
    have "read_run enc (index + 1) (shift + 5)
            (result OR push_bit (shift mod 32) (word_of_nat (c mod 32)))
            = Some (index + 1 + length r,
                    (result OR push_bit (shift mod 32) (word_of_nat (c mod 32)))
                    OR run_word (shift + 5) r)"
    proof (rule Cons.IH [OF r])
      show "index + 1 + length r \<le> length enc" using Cons.prems(2) by simp
      show "\<forall>k<length r. 63 \<le> uint (enc ! (index + 1 + k)) \<and> chunk (enc ! (index + 1 + k)) = r ! k"
      proof (intro allI impI)
        fix k assume "k < length r"
        then have "Suc k < length (c # r)" by simp
        with Cons.prems(3) have "63 \<le> uint (enc ! (index + Suc k)) \<and> chunk (enc ! (index + Suc k)) = (c # r) ! Suc k"
          by blast
        then show "63 \<le> uint (enc ! (index + 1 + k)) \<and> chunk (enc ! (index + 1 + k)) = r ! k"
          by simp
      qed
    qed
    then show ?thesis
      using cont b step by (subst read_run.simps) (simp add: Let_def or.assoc)
  qed
qed

text \<open>
  On a well-formed string the loop of lines 77 to 98 gives the points of the running
  totals of what the code computes for each run, whatever the integers of the runs.
\<close>

lemma decode_points_runs:
  assumes "list_all (\<lambda>c. 63 \<le> uint c \<and> uint c \<le> 126) enc"
    and "index \<le> length enc"
    and "drop index enc = [] \<or> chunk (last enc) < 32"
    and "even (length (spec_runs (map chunk (drop index enc))))"
  shows "decode_points enc index lat lng points
           = Some (points @ spec_points lat lng
                     (map (delta \<circ> run_word 0) (spec_runs (map chunk (drop index enc)))))"
  using assms(2-4)
proof (induction "length enc - index" arbitrary: index lat lng points rule: less_induct)
  case less
  have ok: "\<And>k. k < length enc \<Longrightarrow> 63 \<le> uint (enc ! k) \<and> chunk (enc ! k) < 64"
    using assms(1) by (auto simp: list_all_length chunk_def)
  show ?case
  proof (cases "index < length enc")
    case False
    then show ?thesis by (subst decode_points.simps) simp
  next
    case True
    let ?cs = "map chunk (drop index enc)"
    have cs: "?cs \<noteq> []" "list_all (\<lambda>c. c < 64) ?cs" "last ?cs < 32"
      using True less.prems(2) ok by (auto simp: list_all_length last_map)
    from spec_runs_first [OF cs]
    obtain r1 rest1 where r1: "?cs = r1 @ rest1" "is_run r1" "spec_runs ?cs = r1 # spec_runs rest1"
      "rest1 = [] \<or> last rest1 < 32"
      by blast
    have "spec_runs rest1 \<noteq> []" using less.prems(3) r1(3) by auto
    then have ne1: "rest1 \<noteq> []" by auto
    have all1: "list_all (\<lambda>c. c < 64) rest1" using cs(2) r1(1) by simp
    from spec_runs_first [OF ne1 all1] r1(4) ne1
    obtain r2 rest2 where r2: "rest1 = r2 @ rest2" "is_run r2" "spec_runs rest1 = r2 # spec_runs rest2"
      "rest2 = [] \<or> last rest2 < 32"
      by blast
    define i1 where "i1 = index + length r1"
    define i2 where "i2 = i1 + length r2"
    have "length ?cs = length r1 + length r2 + length rest2"
      by (simp only: r1(1) r2(1) length_append)
    then have len: "length enc = index + length r1 + length r2 + length rest2"
      using True by simp
    then have i2: "i2 \<le> length enc" by (simp add: i1_def i2_def)
    have rest1: "map chunk (drop i1 enc) = rest1"
      using arg_cong [OF r1(1), of "drop (length r1)"] by (simp add: drop_map i1_def add.commute)
    have rest2: "map chunk (drop i2 enc) = rest2"
      using arg_cong [OF r2(1), of "drop (length r2)"]
      by (simp add: rest1 [symmetric] drop_map i2_def add.commute)
    have nth1: "\<forall>k<length r1. 63 \<le> uint (enc ! (index + k)) \<and> chunk (enc ! (index + k)) = r1 ! k"
    proof (intro allI impI)
      fix k assume k: "k < length r1"
      then have "index + k < length enc" using len by simp
      moreover from this k have "?cs ! k = chunk (enc ! (index + k))" by simp
      moreover have "?cs ! k = r1 ! k" using k by (simp only: r1(1) nth_append if_True)
      ultimately show "63 \<le> uint (enc ! (index + k)) \<and> chunk (enc ! (index + k)) = r1 ! k"
        using ok by simp
    qed
    have nth2: "\<forall>k<length r2. 63 \<le> uint (enc ! (i1 + k)) \<and> chunk (enc ! (i1 + k)) = r2 ! k"
    proof (intro allI impI)
      fix k assume k: "k < length r2"
      then have "i1 + k < length enc" using len by (simp add: i1_def)
      moreover from this k have "map chunk (drop i1 enc) ! k = chunk (enc ! (i1 + k))" by simp
      moreover have "rest1 ! k = r2 ! k" using k by (simp only: r2(1) nth_append if_True)
      ultimately show "63 \<le> uint (enc ! (i1 + k)) \<and> chunk (enc ! (i1 + k)) = r2 ! k"
        using ok rest1 by simp
    qed
    have run1: "read_run enc index 0 0 = Some (i1, run_word 0 r1)"
      using read_run_chunks [OF r1(2) _ nth1, of 0 0] len by (simp add: i1_def)
    have run2: "read_run enc i1 0 0 = Some (i2, run_word 0 r2)"
      using read_run_chunks [OF r2(2) _ nth2, of 0 0] len by (simp add: i1_def i2_def)
    define lat' where "lat' = lat + delta (run_word 0 r1)"
    define lng' where "lng' = lng + delta (run_word 0 r2)"
    have "0 < length r1" using r1(2) by (simp add: is_run_def)
    then have "length enc - i2 < length enc - index"
      using len by (simp add: i1_def i2_def)
    moreover have "drop i2 enc = [] \<or> chunk (last enc) < 32"
      using less.prems(2) True by auto
    moreover have "even (length (spec_runs (map chunk (drop i2 enc))))"
      using less.prems(3) by (simp add: rest2 r1(3) r2(3))
    ultimately have rec: "decode_points enc i2 lat' lng' (points @ [point lat' lng'])
        = Some ((points @ [point lat' lng']) @ spec_points lat' lng'
                  (map (delta \<circ> run_word 0) (spec_runs (map chunk (drop i2 enc)))))"
      using i2 by (intro less.hyps)
    have "decode_points enc index lat lng points
            = decode_points enc i2 lat' lng' (points @ [point lat' lng'])"
      using True run1 run2 by (subst decode_points.simps) (simp add: Let_def lat'_def lng'_def)
    also note rec
    finally show ?thesis
      by (simp add: r1(3) r2(3) rest2 lat'_def lng'_def point_def)
  qed
qed

lemma fitting_run_delta:
  assumes "spec_accumulate r < 2 ^ 31"
  shows "delta (run_word 0 r) = spec_zigzag (spec_accumulate r)"
proof -
  have "push_bit 0 (spec_accumulate r) < 2 ^ 32" using assms by simp
  then have "run_word 0 r = word_of_nat (spec_accumulate r)"
    using run_word_accumulate [of 0 r] by simp
  then show ?thesis using delta_zigzag [OF assms] by simp
qed

lemma decode_points_spec:
  assumes "well_formed enc" "runs_fit_int32 enc"
  shows "decode_points enc 0 0 0 points = Some (points @ spec_decode_string enc)"
proof -
  have eq: "map (delta \<circ> run_word 0) (spec_runs (map chunk enc))
          = map (spec_zigzag \<circ> spec_accumulate) (spec_runs (map chunk enc))"
    using assms(2) by (auto simp: runs_fit_int32_def list_all_iff fitting_run_delta)
  have "decode_points enc 0 0 0 points
          = Some (points @ spec_points 0 0
                    (map (delta \<circ> run_word 0) (spec_runs (map chunk enc))))"
    using assms(1) decode_points_runs [of enc 0 0 0 points]
    by (auto simp: well_formed_def)
  then show ?thesis by (simp only: eq spec_decode_string_def)
qed

lemma decode_steps_spec:
  "list_all well_formed t \<Longrightarrow> list_all runs_fit_int32 t
     \<Longrightarrow> decode_steps t points = Some (points @ spec_decode t)"
  by (induction t arbitrary: points) (simp_all add: spec_decode_def decode_points_spec)

lemma decode_points_prefix:
  "decode_points enc index lat lng [] = Some ps
     \<Longrightarrow> decode_points enc index lat lng points = Some (points @ ps)"
proof (induction "length enc - index" arbitrary: index lat lng points ps rule: less_induct)
  case less
  show ?case
  proof (cases "index < length enc")
    case False
    then show ?thesis
      using less.prems by (subst decode_points.simps, subst (asm) decode_points.simps) simp
  next
    case True
    obtain i1 r1 where r1: "read_run enc index 0 0 = Some (i1, r1)" "index < i1"
      using read_run_returns by blast
    obtain i2 r2 where r2: "read_run enc i1 0 0 = Some (i2, r2)" "i1 < i2"
      using read_run_returns by blast
    define p where "p = point (lat + delta r1) (lng + delta r2)"
    have smaller: "length enc - i2 < length enc - index" using True r1(2) r2(2) by simp
    have step: "\<And>qs. decode_points enc index lat lng qs
                  = decode_points enc i2 (lat + delta r1) (lng + delta r2) (qs @ [p])"
      using True r1 r2 by (subst decode_points.simps) (simp add: Let_def p_def)
    obtain q where q: "decode_points enc i2 (lat + delta r1) (lng + delta r2) [] = Some q"
      using decode_points_returns by blast
    have "decode_points enc i2 (lat + delta r1) (lng + delta r2) [p] = Some ([p] @ q)"
      using smaller q by (rule less.hyps)
    then have ps: "ps = [p] @ q" using less.prems by (simp add: step [of "[]"])
    have "decode_points enc i2 (lat + delta r1) (lng + delta r2) (points @ [p]) = Some ((points @ [p]) @ q)"
      using smaller q by (rule less.hyps)
    then show ?thesis by (simp add: step [of points] ps)
  qed
qed

lemma decode_steps_prefix:
  "decode_steps t [] = Some ps \<Longrightarrow> decode_steps t points = Some (points @ ps)"
proof (induction t arbitrary: points ps)
  case Nil
  then show ?case by simp
next
  case (Cons enc t)
  obtain q where q: "decode_points enc 0 0 0 [] = Some q"
    using decode_points_returns by blast
  obtain qs where qs: "decode_steps t [] = Some qs"
    using decode_steps_returns by blast
  have "decode_steps t q = Some (q @ qs)" using qs by (rule Cons.IH)
  then have ps: "ps = q @ qs" using Cons.prems q by simp
  have "decode_points enc 0 0 0 points = Some (points @ q)"
    using q by (rule decode_points_prefix)
  moreover have "decode_steps t (points @ q) = Some ((points @ q) @ qs)"
    using qs by (rule Cons.IH)
  ultimately show ?case by (simp add: ps)
qed

lemma decode_steps_append:
  "decode_steps (t1 @ t2) points = Option.bind (decode_steps t1 points) (decode_steps t2)"
proof (induction t1 arbitrary: points)
  case Nil
  then show ?case by simp
next
  case (Cons enc t1)
  obtain q where "decode_points enc 0 0 0 points = Some q"
    using decode_points_returns by blast
  then show ?case by (simp add: Cons.IH)
qed

text \<open>
  Decoding two arrays one after the other gives the points of the first followed by
  the points of the second, for any strings.
\<close>

lemma decode_append:
  "\<exists>p1 p2. decode t1 = Some p1 \<and> decode t2 = Some p2 \<and> decode (t1 @ t2) = Some (p1 @ p2)"
proof -
  obtain p1 where p1: "decode_steps t1 [] = Some p1" using decode_steps_returns by blast
  obtain p2 where p2: "decode_steps t2 [] = Some p2" using decode_steps_returns by blast
  have "decode_steps (t1 @ t2) [] = decode_steps t2 p1"
    using p1 by (simp add: decode_steps_append)
  also have "\<dots> = Some (p1 @ p2)"
    using p2 by (rule decode_steps_prefix)
  finally show ?thesis using p1 p2 by (simp add: decode_def)
qed



lemma delta_range: "- (2 ^ 30) \<le> delta w \<and> delta w < 2 ^ 30"
proof -
  define x where "x = sint (signed_drop_bit 1 w)"
  have "- (2 ^ 31) \<le> sint w" "sint w < 2 ^ 31"
    using sint_ge [of w] sint_lt [of w] by simp_all
  then have x: "- (2 ^ 30) \<le> x" "x < 2 ^ 30"
    by (simp_all add: x_def sint_signed_drop_bit_eq drop_bit_eq_div)
  have "sint (NOT (signed_drop_bit 1 w)) = signed_take_bit 32 (NOT x)"
    unfolding x_def by (simp only: signed_not_eq) simp
  also have "\<dots> = NOT x"
  proof (rule signed_take_bit_int_eq_self)
    show "- (2 ^ 32) \<le> NOT x" using x by (simp add: not_int_def)
    show "NOT x < 2 ^ 32" using x by (simp add: not_int_def)
  qed
  finally have "sint (NOT (signed_drop_bit 1 w)) = - x - 1" by (simp add: not_int_def)
  then show ?thesis
    using x unfolding delta_def x_def by (simp split: if_splits)
qed

lemma spec_zigzag_large:
  assumes "2 ^ 31 \<le> v"
  shows "spec_zigzag v < - (2 ^ 30) \<or> 2 ^ 30 \<le> spec_zigzag v"
proof -
  define d where "d = drop_bit 1 (int v)"
  have "(2::int) ^ 31 \<le> int v" using assms by (metis of_nat_le_iff of_nat_numeral of_nat_power)
  then have "2 ^ 30 \<le> d" by (simp add: d_def drop_bit_eq_div)
  then show ?thesis
    unfolding spec_zigzag_def d_def [symmetric] by (simp add: not_int_def)
qed

lemma spec_points_inject:
  "length ds = length ds' \<Longrightarrow> even (length ds)
     \<Longrightarrow> spec_points lat lng ds = spec_points lat lng ds' \<Longrightarrow> ds = ds'"
proof (induction lat lng ds arbitrary: ds' rule: spec_points.induct)
  case (1 lat lng dlat dlng ds)
  then obtain a b ds'' where ds': "ds' = a # b # ds''"
    by (cases ds'; cases "tl ds'") auto
  from "1.prems"(3) have "dlat = a" "dlng = b"
    by (simp_all add: ds')
  moreover from this "1.prems" have "ds = ds''"
    by (intro "1.IH") (simp_all add: ds')
  ultimately show ?case by (simp add: ds')
qed auto

text \<open>
  The bound is needed: on a well-formed string \<^verbatim>\<open>decode\<close> gives the points of the
  format only if the integer of every run is below \<open>2 ^ 31\<close>.
\<close>

lemma decode_classic_only_if:
  assumes "well_formed enc" "decode [enc] = Some (spec_decode_string enc)"
  shows "runs_fit_int32 enc"
proof -
  let ?runs = "spec_runs (map chunk enc)"
  have "decode_points enc 0 0 0 []
          = Some ([] @ spec_points 0 0 (map (delta \<circ> run_word 0) ?runs))"
    using assms(1) decode_points_runs [of enc 0 0 0 "[]"] by (auto simp: well_formed_def)
  then have "spec_points 0 0 (map (delta \<circ> run_word 0) ?runs)
          = spec_points 0 0 (map (spec_zigzag \<circ> spec_accumulate) ?runs)"
    using assms(2) by (simp add: decode_def spec_decode_string_def)
  moreover have "even (length (map (delta \<circ> run_word 0) ?runs))"
    using assms(1) by (simp add: well_formed_def)
  ultimately have "map (delta \<circ> run_word 0) ?runs = map (spec_zigzag \<circ> spec_accumulate) ?runs"
    by (intro spec_points_inject) simp_all
  then have eq: "\<And>r. r \<in> set ?runs \<Longrightarrow> delta (run_word 0 r) = spec_zigzag (spec_accumulate r)"
    by simp
  have "\<And>r. r \<in> set ?runs \<Longrightarrow> spec_accumulate r < 2 ^ 31"
  proof (rule ccontr)
    fix r assume r: "r \<in> set ?runs" and "\<not> spec_accumulate r < 2 ^ 31"
    then have "2 ^ 31 \<le> spec_accumulate r" by simp
    from spec_zigzag_large [OF this] delta_range [of "run_word 0 r"] eq [OF r]
    show False by simp
  qed
  then show ?thesis by (simp add: runs_fit_int32_def list_all_iff)
qed

text \<open>
  C3. Well-formedness alone is not enough: the string \<^verbatim>\<open>______A?\<close> is well-formed,
  the integer of its first run is \<open>2 ^ 31\<close>, and \<^verbatim>\<open>decode\<close> returns the latitude
  \<open>- 10737.41824\<close> where the format gives \<open>10737.41824\<close>, because \<^verbatim>\<open>result\<close>
  is a signed integer of 32 bits.
\<close>

theorem decode_classic_counterexample:
  "well_formed (code_units ''______A?'')
   \<and> decode [code_units ''______A?'']
       = Some [\<lparr>latitude = Some (- 10737.41824), longitude = Some 0\<rparr>]
   \<and> spec_decode [code_units ''______A?'']
       = [\<lparr>latitude = Some 10737.41824, longitude = Some 0\<rparr>]
   \<and> decode [code_units ''______A?''] \<noteq> Some (spec_decode [code_units ''______A?''])"
proof -
  have wf: "well_formed (code_units ''______A?'')"
    by code_simp
  have code: "decode [code_units ''______A?'']
       = Some [\<lparr>latitude = Some (- 10737.41824), longitude = Some 0\<rparr>]"
    by code_simp
  have runs: "spec_runs (map chunk (code_units ''______A?'')) = [[32, 32, 32, 32, 32, 32, 2], [0]]"
    by code_simp
  have spec: "spec_decode [code_units ''______A?'']
       = [\<lparr>latitude = Some 10737.41824, longitude = Some 0\<rparr>]"
    unfolding spec_decode_def spec_decode_string_def list.map runs
    by (simp add: spec_zigzag_def and_one_eq drop_bit_eq_div not_int_def)
  from wf code spec show ?thesis by simp
qed

text \<open>
  C3, amended. On an array of well-formed encoded strings in which the integer of
  every run is below \<open>2 ^ 31\<close>, \<^verbatim>\<open>decode\<close> returns the points of the format as
  the specification words it: the chunks are the code units minus 63, a run ends at the
  first chunk whose bit 5 is clear, its data bits are put together with the first chunk
  lowest, the sum is decoded by the zigzag rule on unbounded integers, the differences
  are added in turn to a latitude and a longitude that start at zero, and every pair
  gives a point, divided by \<open>100000\<close>. Every string is decoded by itself, and the
  points of the strings follow each other in the order of the array; the latter holds
  for arrays of any strings.
\<close>

theorem decode_classic:
  "(list_all well_formed t \<and> list_all runs_fit_int32 t \<longrightarrow>
      decode t = Some (spec_decode t)
      \<and> list_all (\<lambda>enc. decode [enc] = Some (spec_decode_string enc)) t)
   \<and> (\<exists>p1 p2. decode t1 = Some p1 \<and> decode t2 = Some p2 \<and> decode (t1 @ t2) = Some (p1 @ p2))"
proof (intro conjI impI)
  assume "list_all well_formed t \<and> list_all runs_fit_int32 t"
  then have wf: "list_all well_formed t" and fit: "list_all runs_fit_int32 t" by simp_all
  show "decode t = Some (spec_decode t)"
    using decode_steps_spec [OF wf fit, of "[]"] by (simp add: decode_def)
  have "\<And>enc. enc \<in> set t \<Longrightarrow> decode [enc] = Some (spec_decode_string enc)"
    using wf fit decode_steps_spec [of "[_]" "[]"]
    by (simp add: decode_def spec_decode_def list_all_iff)
  then show "list_all (\<lambda>enc. decode [enc] = Some (spec_decode_string enc)) t"
    by (simp add: list_all_iff)
next
  show "\<exists>p1 p2. decode t1 = Some p1 \<and> decode t2 = Some p2 \<and> decode (t1 @ t2) = Some (p1 @ p2)"
    by (rule decode_append)
qed

theorem decode_classic_witness:
  "list_all well_formed [code_units ''_p~iF~ps|U_ulLnnqC_mqNvxq`@'', code_units ''_p~iF~ps|U'']
   \<and> list_all runs_fit_int32 [code_units ''_p~iF~ps|U_ulLnnqC_mqNvxq`@'', code_units ''_p~iF~ps|U'']
   \<and> decode [code_units ''_p~iF~ps|U_ulLnnqC_mqNvxq`@'', code_units ''_p~iF~ps|U'']
       = Some [\<lparr>latitude = Some 38.5, longitude = Some (- 120.2)\<rparr>,
               \<lparr>latitude = Some 40.7, longitude = Some (- 120.95)\<rparr>,
               \<lparr>latitude = Some 43.252, longitude = Some (- 126.453)\<rparr>,
               \<lparr>latitude = Some 38.5, longitude = Some (- 120.2)\<rparr>]"
proof -
  have wf: "list_all well_formed [code_units ''_p~iF~ps|U_ulLnnqC_mqNvxq`@'', code_units ''_p~iF~ps|U'']"
    by code_simp
  have runs1: "spec_runs (map chunk (code_units ''_p~iF~ps|U_ulLnnqC_mqNvxq`@''))
      = [[32, 49, 63, 42, 7], [63, 49, 52, 61, 22], [32, 54, 45, 13], [47, 47, 50, 4],
         [32, 46, 50, 15], [55, 57, 50, 33, 1]]"
    by code_simp
  have runs2: "spec_runs (map chunk (code_units ''_p~iF~ps|U''))
      = [[32, 49, 63, 42, 7], [63, 49, 52, 61, 22]]"
    by code_simp
  have fit: "list_all runs_fit_int32 [code_units ''_p~iF~ps|U_ulLnnqC_mqNvxq`@'', code_units ''_p~iF~ps|U'']"
    by (simp add: runs_fit_int32_def runs1 runs2)
  have points: "spec_decode [code_units ''_p~iF~ps|U_ulLnnqC_mqNvxq`@'', code_units ''_p~iF~ps|U'']
       = [\<lparr>latitude = Some 38.5, longitude = Some (- 120.2)\<rparr>,
          \<lparr>latitude = Some 40.7, longitude = Some (- 120.95)\<rparr>,
          \<lparr>latitude = Some 43.252, longitude = Some (- 126.453)\<rparr>,
          \<lparr>latitude = Some 38.5, longitude = Some (- 120.2)\<rparr>]"
    unfolding spec_decode_def spec_decode_string_def list.map runs1 runs2
    by (simp add: spec_zigzag_def and_one_eq drop_bit_eq_div not_int_def)
  from decode_classic [where t = "[code_units ''_p~iF~ps|U_ulLnnqC_mqNvxq`@'', code_units ''_p~iF~ps|U'']"]
    wf fit points
  show ?thesis by simp
qed

end
